theory Spec2Isabelle
  imports Complex_Main
begin

section \<open>Errors, promises and the bluebird combinators\<close>

text \<open>
  An error object, read through its \<open>message\<close> property. \<open>TypeError\<close> is what the
  engine raises when a property of \<open>undefined\<close> or \<open>null\<close> is read; the wording of its
  message is the engine's.
\<close>

datatype error = Error (message: string) | TypeError (message: string)

text \<open>
  What a \<open>throw\<close> or a rejection carries is any JavaScript value: an error object,
  \<open>undefined\<close>, \<open>null\<close>, or another value without a \<open>message\<close> property (a string, a
  number, a plain object).
\<close>

datatype reason = Thrown error | Undefined | Null | Plain

text \<open>
  Reading \<open>.message\<close> of a caught value: the message of an error object, \<open>undefined\<close>
  (\<open>None\<close>) for a value without the property, and a \<open>TypeError\<close> thrown by the read
  itself for \<open>undefined\<close> and \<open>null\<close>.
\<close>

fun read_message :: "reason \<Rightarrow> reason + string option" where
  "read_message (Thrown e) = Inr (Some (message e))"
| "read_message Plain = Inr None"
| "read_message Undefined = Inl (Thrown (TypeError ''Cannot read property message of undefined''))"
| "read_message Null = Inl (Thrown (TypeError ''Cannot read property message of null''))"

text \<open>
  A promise is observed once the event loop has run dry: it is still pending (it will
  never settle), rejected with a reason, or fulfilled with a value.
\<close>

datatype 'a promise = Pending | Rejected reason | Fulfilled 'a

text \<open>
  \<open>p.then(f)\<close>: the callback runs on the fulfilment value; what it returns fulfils the
  new promise, what it throws (\<open>Inl\<close>) rejects it.
\<close>

fun promise_then :: "'a promise \<Rightarrow> ('a \<Rightarrow> reason + 'b) \<Rightarrow> 'b promise" where
  "promise_then Pending f = Pending"
| "promise_then (Rejected e) f = Rejected e"
| "promise_then (Fulfilled v) f = (case f v of Inl e \<Rightarrow> Rejected e | Inr y \<Rightarrow> Fulfilled y)"

text \<open>\<open>p.catch(f)\<close>: the callback runs on the rejection reason.\<close>

fun promise_catch :: "'a promise \<Rightarrow> (reason \<Rightarrow> reason + 'a) \<Rightarrow> 'a promise" where
  "promise_catch Pending f = Pending"
| "promise_catch (Rejected e) f = (case f e of Inl e' \<Rightarrow> Rejected e' | Inr y \<Rightarrow> Fulfilled y)"
| "promise_catch (Fulfilled v) f = Fulfilled v"

text \<open>
  \<open>Promise.promisify\<close>: the wrapped function reports through a node-style callback
  \<open>callback(error, value)\<close>, whose first argument is an error object or \<open>null\<close>
  (\<open>None\<close>). An error object rejects the promise with it (the second argument is
  dropped), otherwise the promise is fulfilled with the value.
\<close>

fun promisify :: "error option \<times> 'a \<Rightarrow> 'a promise" where
  "promisify (Some e, v) = Rejected (Thrown e)"
| "promisify (None, v) = Fulfilled v"

fun rejection :: "'a promise \<Rightarrow> reason option" where
  "rejection (Rejected e) = Some e"
| "rejection Pending = None"
| "rejection (Fulfilled v) = None"

text \<open>
  The members of an aggregate settle in some order, given as a list of positions
  (\<open>order\<close>); positions the list leaves out settle afterwards, in input order. The
  aggregate is rejected with the reason of the member that is rejected first.
\<close>

definition first_rejection :: "'a promise list \<Rightarrow> nat list \<Rightarrow> reason option" where
  "first_rejection ps order =
     (case List.map_filter (\<lambda>i. if i < length ps then rejection (ps ! i) else None)
             (order @ [0..<length ps]) of
        [] \<Rightarrow> None
      | e # es \<Rightarrow> Some e)"

fun fulfilled_values :: "'a promise list \<Rightarrow> 'a list option" where
  "fulfilled_values [] = Some []"
| "fulfilled_values (Fulfilled v # ps) = map_option ((#) v) (fulfilled_values ps)"
| "fulfilled_values (Pending # ps) = None"
| "fulfilled_values (Rejected e # ps) = None"

text \<open>
  \<open>Promise.map(xs, f)\<close>: one call of the mapper per element; the results are stored by
  position, whatever the order of completion.
\<close>

definition Promise_map :: "'a list \<Rightarrow> ('a \<Rightarrow> 'b promise) \<Rightarrow> nat list \<Rightarrow> 'b list promise" where
  "Promise_map xs f order =
     (case first_rejection (map f xs) order of
        Some e \<Rightarrow> Rejected e
      | None \<Rightarrow> (case fulfilled_values (map f xs) of
                   Some vs \<Rightarrow> Fulfilled vs
                 | None \<Rightarrow> Pending))"

text \<open>\<open>Promise.join(a, b, c)\<close>: fulfilled once all three are, rejected with the first rejection.\<close>

definition Promise_join ::
  "'a promise \<Rightarrow> 'a promise \<Rightarrow> 'a promise \<Rightarrow> nat list \<Rightarrow> ('a \<times> 'a \<times> 'a) promise" where
  "Promise_join a b c order =
     (case first_rejection [a, b, c] order of
        Some e \<Rightarrow> Rejected e
      | None \<Rightarrow> (case (a, b, c) of
                   (Fulfilled x, Fulfilled y, Fulfilled z) \<Rightarrow> Fulfilled (x, y, z)
                 | _ \<Rightarrow> Pending))"

section \<open>JavaScript numbers\<close>

text \<open>
  A JavaScript number is an IEEE 754 double (binary64): a finite value, which is a
  rational with a 53-bit significand (\<open>Finite 0\<close> is the positive zero), the negative
  zero, an infinity, or \<open>NaN\<close>.
\<close>

datatype number = Finite real | NegZero | PosInfinity | NegInfinity | NaN

definition pow2 :: "int \<Rightarrow> real" where
  "pow2 k = (if 0 \<le> k then 2 ^ nat k else 1 / 2 ^ nat (- k))"

text \<open>The position of the leading bit of a positive natural number.\<close>

fun log2_floor :: "nat \<Rightarrow> nat" where
  "log2_floor n = (if n < 2 then 0 else log2_floor (n div 2) + 1)"

declare log2_floor.simps [simp del]

text \<open>The binary exponent of a positive value \<open>a\<close>: the \<open>e\<close> with \<open>2^e \<le> a < 2^(e+1)\<close>.\<close>

definition exponent :: "real \<Rightarrow> int" where
  "exponent a =
     (let e0 = (if 1 \<le> a then int (log2_floor (nat \<lfloor>a\<rfloor>))
                else - int (log2_floor (nat \<lfloor>1 / a\<rfloor>)) - 1)
      in if pow2 (e0 + 1) \<le> a then e0 + 1 else e0)"

text \<open>The nearest integer, a tie going to the even one.\<close>

definition round_half_even :: "real \<Rightarrow> int" where
  "round_half_even x =
     (let f = \<lfloor>x\<rfloor>; d = x - of_int f
      in if d < 1 / 2 then f else if 1 / 2 < d then f + 1 else if even f then f else f + 1)"

fun signed_zero :: "bool \<Rightarrow> number" where
  "signed_zero True = NegZero"
| "signed_zero False = Finite 0"

fun signed_infinity :: "bool \<Rightarrow> number" where
  "signed_infinity True = NegInfinity"
| "signed_infinity False = PosInfinity"

text \<open>
  The double nearest to an exact result \<open>q\<close> (round to nearest, ties to even): the
  significand has 53 bits, so the spacing of doubles at \<open>q\<close> is \<open>2^(e-52)\<close> for the
  exponent \<open>e\<close> of \<open>q\<close>, and never below \<open>2^-1074\<close> (the subnormal range); a rounded
  magnitude of \<open>2^1024\<close> or more is an infinity, a rounded magnitude of zero a signed
  zero.
\<close>

definition round_binary64 :: "real \<Rightarrow> number" where
  "round_binary64 q =
     (if q = 0 then Finite 0
      else let a = \<bar>q\<bar>;
               p = max (exponent a - 52) (- 1074);
               m = round_half_even (a / pow2 p);
               v = of_int m * pow2 p
           in if pow2 1024 \<le> v then signed_infinity (q < 0)
              else if m = 0 then signed_zero (q < 0)
              else Finite (if q < 0 then - v else v))"

fun is_negative :: "number \<Rightarrow> bool" where
  "is_negative (Finite q) = (q < 0)"
| "is_negative NegZero = True"
| "is_negative PosInfinity = False"
| "is_negative NegInfinity = True"
| "is_negative NaN = False"

fun is_zero :: "number \<Rightarrow> bool" where
  "is_zero (Finite q) = (q = 0)"
| "is_zero NegZero = True"
| "is_zero PosInfinity = False"
| "is_zero NegInfinity = False"
| "is_zero NaN = False"

fun is_infinite :: "number \<Rightarrow> bool" where
  "is_infinite PosInfinity = True"
| "is_infinite NegInfinity = True"
| "is_infinite (Finite q) = False"
| "is_infinite NegZero = False"
| "is_infinite NaN = False"

fun finite_value :: "number \<Rightarrow> real" where
  "finite_value (Finite q) = q"
| "finite_value NegZero = 0"
| "finite_value PosInfinity = 0"
| "finite_value NegInfinity = 0"
| "finite_value NaN = 0"

text \<open>The operator \<open>/\<close> on numbers.\<close>

definition js_div :: "number \<Rightarrow> number \<Rightarrow> number" where
  "js_div x y =
     (let negative = (is_negative x \<noteq> is_negative y)
      in if x = NaN \<or> y = NaN then NaN
         else if is_infinite x then (if is_infinite y then NaN else signed_infinity negative)
         else if is_infinite y then signed_zero negative
         else if is_zero y then (if is_zero x then NaN else signed_infinity negative)
         else if is_zero x then signed_zero negative
         else round_binary64 (finite_value x / finite_value y))"

text \<open>The operator \<open>*\<close> on numbers.\<close>

definition js_mul :: "number \<Rightarrow> number \<Rightarrow> number" where
  "js_mul x y =
     (let negative = (is_negative x \<noteq> is_negative y)
      in if x = NaN \<or> y = NaN then NaN
         else if is_infinite x \<or> is_infinite y
           then (if is_zero x \<or> is_zero y then NaN else signed_infinity negative)
         else if is_zero x \<or> is_zero y then signed_zero negative
         else round_binary64 (finite_value x * finite_value y))"

text \<open>
  \<open>Math.round\<close>: the nearest integer, a tie going up; the result is exact. A value in
  \<open>[-0.5, 0)\<close> gives the negative zero.
\<close>

fun Math_round :: "number \<Rightarrow> number" where
  "Math_round (Finite q) =
     (if q < 0 \<and> - (1 / 2) \<le> q then NegZero else Finite (of_int \<lfloor>q + 1 / 2\<rfloor>))"
| "Math_round NegZero = NegZero"
| "Math_round PosInfinity = PosInfinity"
| "Math_round NegInfinity = NegInfinity"
| "Math_round NaN = NaN"

section \<open>The data model\<close>

text \<open>
  A check is an object with a \<open>name\<close>; an endpoint check adds its \<open>url\<close>, a function
  check its \<open>fn\<close>. The function takes no argument, so it is given by what
  \<open>serviceObj.fn.call(null)\<close> yields inside the mapper: a returned boolean or a promise of
  one (\<open>Fulfilled\<close>), a thrown value or a rejected promise (\<open>Rejected\<close>), or a promise
  that never settles. Outcomes are booleans, as the data model has them.
\<close>

record service =
  name :: string

record api = service +
  url :: string

record check_function = service +
  fn :: "bool promise"

text \<open>The property \<open>active\<close> holds \<open>undefined\<close> (\<open>None\<close>) when there is no flag at that position.\<close>

record checkResult = service +
  active :: "bool option"

record categoryReport =
  status :: bool
  services :: "checkResult list"

text \<open>A category of the report is the empty array \<open>[]\<close> or a category report.\<close>

datatype category = EmptyArray | Report categoryReport

text \<open>Reading \<open>.status\<close> and \<open>.services\<close> of a category; \<open>None\<close> is \<open>undefined\<close>.\<close>

fun category_status :: "category \<Rightarrow> bool option" where
  "category_status EmptyArray = None"
| "category_status (Report r) = Some (categoryReport.status r)"

fun category_services :: "category \<Rightarrow> checkResult list option" where
  "category_services EmptyArray = None"
| "category_services (Report r) = Some (services r)"

record inspectionSet =
  apis :: "api list option"
  "functions" :: "check_function list option"

record hostMetrics =
  process_memory_used_percent :: number
  uptime_minutes :: number
  cpu_one_minute_average_percent :: number
  cpu_five_minute_average_percent :: number
  hostname :: string
  os_free_memory_mb :: number
  disk_root_use_percent :: number

text \<open>The object \<open>result\<close> of \<open>orchestrate\<close>: it starts as \<open>{}\<close> and gains its keys one by one.\<close>

record compositeReport =
  server :: "hostMetrics option"
  apis :: "category option"
  "functions" :: "category option"

text \<open>The \<open>data\<close> of a response: the report, or \<open>{ message: ... }\<close> (\<open>None\<close> is \<open>undefined\<close>).\<close>

datatype payload = Composite compositeReport | Message "string option"

record envelope =
  status :: nat
  data :: payload

section \<open>The world outside the module\<close>

datatype http_result = RequestError error | Response nat

record disk_data =
  used :: number
  total :: number

text \<open>
  Everything the module reads from outside, fixed for one invocation: the outcome of
  \<open>request(url, {timeout: 10000}, ...)\<close> (a transport error, which includes the timeout,
  or a response with its status code), the numbers returned by \<open>process\<close> and \<open>os\<close>, the
  length of \<open>os.cpus()\<close> (a count, exact as a number), the outcome of \<open>diskspace.checkAsync('/')\<close>, whether
  \<open>global.Raven\<close> is set, and the order in which the members of each aggregate settle.
\<close>

record world =
  request :: "string \<Rightarrow> http_result"
  process_heapTotal :: number
  process_heapUsed :: number
  process_uptime :: number
  os_totalmem :: number
  os_cpus :: nat
  os_loadavg :: "number \<times> number \<times> number"
  os_hostname :: string
  os_freemem :: number
  diskspace_check :: "disk_data promise"
  Raven :: bool
  apis_order :: "nat list"
  functions_order :: "nat list"
  join_order :: "nat list"

section \<open>Endpoint prober\<close>

text \<open>The arguments \<open>ensureHttp200\<close> passes to its callback.\<close>

definition ensureHttp200_callback :: "world \<Rightarrow> string \<Rightarrow> error option \<times> bool" where
  "ensureHttp200_callback w u =
     (case request w u of
        RequestError e \<Rightarrow> (Some e, False)
      | Response statusCode \<Rightarrow> (None, statusCode = 200))"

definition ensureHttp200 :: "world \<Rightarrow> string \<Rightarrow> bool promise" where
  "ensureHttp200 w u = promisify (ensureHttp200_callback w u)"

section \<open>Host metrics collector\<close>

definition getCpuPercent :: "world \<Rightarrow> number \<Rightarrow> number" where
  "getCpuPercent w load =
     (let numCpu = Finite (real (os_cpus w));
          val = js_mul (js_div load numCpu) (Finite 100)
      in js_div (Math_round (js_mul val (Finite 100))) (Finite 100))"

definition healthCheckServer :: "world \<Rightarrow> hostMetrics promise" where
  "healthCheckServer w =
     (let memPercent = js_mul (js_div (process_heapTotal w) (os_totalmem w)) (Finite 100);
          cpuLoad = os_loadavg w;
          result = (\<lambda>disk.
            \<lparr> process_memory_used_percent =
                js_div (Math_round (js_mul memPercent (Finite 100))) (Finite 100),
              uptime_minutes =
                js_div (Math_round (js_mul (js_div (process_uptime w) (Finite 60)) (Finite 100)))
                  (Finite 100),
              cpu_one_minute_average_percent = getCpuPercent w (fst cpuLoad),
              cpu_five_minute_average_percent = getCpuPercent w (fst (snd cpuLoad)),
              hostname = os_hostname w,
              os_free_memory_mb =
                js_div (Math_round (js_mul
                    (js_div (os_freemem w) (js_mul (Finite 1024) (Finite 1024))) (Finite 100)))
                  (Finite 100),
              disk_root_use_percent = disk \<rparr>)
      in promise_catch
           (promise_then (diskspace_check w)
              (\<lambda>data. let val = js_mul (js_div (used data) (total data)) (Finite 100)
                      in Inr (result (js_div (Math_round (js_mul val (Finite 100))) (Finite 100)))))
           (\<lambda>err. Inr (result (Finite (- 1)))))"

section \<open>Result reducer\<close>

definition allOk :: "bool list \<Rightarrow> bool" where
  "allOk statusFlags = foldl (\<lambda>flag n. n \<and> flag) True statusFlags"

text \<open>\<open>_.zip\<close>: as long as the longer array, the shorter one padded with \<open>undefined\<close>.\<close>

fun lodash_zip :: "'a list \<Rightarrow> 'b list \<Rightarrow> ('a option \<times> 'b option) list" where
  "lodash_zip [] [] = []"
| "lodash_zip (x # xs) [] = (Some x, None) # lodash_zip xs []"
| "lodash_zip [] (y # ys) = (None, Some y) # lodash_zip [] ys"
| "lodash_zip (x # xs) (y # ys) = (Some x, Some y) # lodash_zip xs ys"

text \<open>
  The \<open>_.each\<close> loop of \<open>statusReply\<close>, with the array \<open>services\<close> it pushes to (\<open>pushed\<close>). Reading
  \<open>.name\<close> of an \<open>undefined\<close> row entry throws.
\<close>

fun push_services ::
  "('a service_scheme option \<times> bool option) list \<Rightarrow> checkResult list \<Rightarrow> error + checkResult list" where
  "push_services [] pushed = Inr pushed"
| "push_services ((None, code) # zipped) pushed =
     Inl (TypeError ''Cannot read property name of undefined'')"
| "push_services ((Some serviceObj, code) # zipped) pushed =
     push_services zipped (pushed @ [\<lparr> name = name serviceObj, active = code \<rparr>])"

definition statusReply :: "'a service_scheme list \<Rightarrow> bool list \<Rightarrow> error + categoryReport" where
  "statusReply serviceList statusFlags =
     (let overallFlag = allOk statusFlags;
          zipped = lodash_zip serviceList statusFlags
      in case push_services zipped [] of
           Inl e \<Rightarrow> Inl e
         | Inr pushed \<Rightarrow> Inr \<lparr> categoryReport.status = overallFlag, services = pushed \<rparr>)"

section \<open>Probers and orchestrator\<close>

definition executeApis :: "world \<Rightarrow> api list option \<Rightarrow> category promise" where
  "executeApis w apiList =
     (case apiList of
        Some as \<Rightarrow>
          promise_then (Promise_map as (\<lambda>api. ensureHttp200 w (url api)) (apis_order w))
            (\<lambda>statusFlags. map_sum Thrown Report (statusReply as statusFlags))
      | None \<Rightarrow> Fulfilled EmptyArray)"

definition executeFunctions :: "world \<Rightarrow> check_function list option \<Rightarrow> category promise" where
  "executeFunctions w functionList =
     (case functionList of
        Some fs \<Rightarrow>
          promise_then (Promise_map fs (\<lambda>serviceObj. fn serviceObj) (functions_order w))
            (\<lambda>statusFlags. map_sum Thrown Report (statusReply fs statusFlags))
      | None \<Rightarrow> Fulfilled EmptyArray)"

text \<open>
  \<open>orchestrate\<close> throws synchronously (\<open>Inl\<close>) when its argument is \<open>undefined\<close>
  (\<open>None\<close>). Each of the three promises fulfils with the assignment its callback makes to
  \<open>result\<close>; the last callback runs after all three assignments.
\<close>

definition orchestrate :: "world \<Rightarrow> inspectionSet option \<Rightarrow> reason + envelope promise" where
  "orchestrate w inspectionSet =
     (case inspectionSet of
        None \<Rightarrow> Inl (Thrown (TypeError ''Cannot read property apis of undefined''))
      | Some iset \<Rightarrow>
          (let apis = inspectionSet.apis iset;
               functions = inspectionSet.functions iset;
               result = \<lparr> server = None, compositeReport.apis = None,
                          compositeReport.functions = None \<rparr>;
               serverPromise = promise_then (healthCheckServer w)
                 (\<lambda>data. Inr (\<lambda>result. result \<lparr> server := Some data \<rparr>));
               apisPromise = promise_then (executeApis w apis)
                 (\<lambda>apiStatus. Inr (\<lambda>result. result \<lparr> compositeReport.apis := Some apiStatus \<rparr>));
               functionsPromise = promise_then (executeFunctions w functions)
                 (\<lambda>funcStatus. Inr (\<lambda>result. result \<lparr> compositeReport.functions := Some funcStatus \<rparr>))
           in Inr (promise_then
                     (Promise_join apisPromise functionsPromise serverPromise (join_order w))
                     (\<lambda>(setApis, setFunctions, setServer).
                        let responseStatus = 200
                        in Inr \<lparr> envelope.status = responseStatus,
                                 data = Composite (setServer (setFunctions (setApis result))) \<rparr>))))"

section \<open>Route handler and registration\<close>

text \<open>
  What a call of the handler does: the calls of \<open>res.send\<close>, the calls of
  \<open>Raven.captureException\<close>, and the exception that leaves the handler uncaught, if any
  (thrown to the caller, or left as the rejection of the handler's promise chain).
\<close>

record effects =
  sent :: "(nat \<times> envelope) list"
  captured :: "reason list"
  escaped :: "reason option"

text \<open>
  The body of the function that \<open>getHealthCheck(inspectionSet)\<close> returns. Both catch
  blocks read \<open>.message\<close> of what they caught while they build the argument of
  \<open>res.send\<close>: when that read throws, nothing is sent and, in the promise's \<open>.catch\<close>,
  \<open>Raven\<close> is not reached.
\<close>

definition handle_request :: "world \<Rightarrow> inspectionSet option \<Rightarrow> effects" where
  "handle_request w inspectionSet =
     (case orchestrate w inspectionSet of
        Inl e \<Rightarrow>
          (case read_message e of
             Inl thrown \<Rightarrow> \<lparr> sent = [], captured = [], escaped = Some thrown \<rparr>
           | Inr msg \<Rightarrow>
               \<lparr> sent = [(200, \<lparr> envelope.status = 200, data = Message msg \<rparr>)],
                 captured = [], escaped = None \<rparr>)
      | Inr Pending \<Rightarrow> \<lparr> sent = [], captured = [], escaped = None \<rparr>
      | Inr (Fulfilled info) \<Rightarrow>
          \<lparr> sent = [(envelope.status info, info)], captured = [], escaped = None \<rparr>
      | Inr (Rejected err) \<Rightarrow>
          (case read_message err of
             Inl thrown \<Rightarrow> \<lparr> sent = [], captured = [], escaped = Some thrown \<rparr>
           | Inr msg \<Rightarrow>
               \<lparr> sent = [(200, \<lparr> envelope.status = 200, data = Message msg \<rparr>)],
                 captured = (if Raven w then [err] else []), escaped = None \<rparr>))"

text \<open>
  The two function values of the module: \<open>getHealthCheck\<close> itself, and the handler it
  returns, closed over the argument it was given. A caller passes any value as first
  argument; the module only ever reads \<open>.apis\<close> and \<open>.functions\<close> of it, so a value is
  \<open>undefined\<close> (\<open>None\<close>) or an object seen through these two properties.
\<close>

datatype js_function = GetHealthCheck | Handler "inspectionSet option"

definition getHealthCheck :: "inspectionSet option \<Rightarrow> js_function" where
  "getHealthCheck inspectionSet = Handler inspectionSet"

text \<open>Calling a function value with \<open>(req, res, next)\<close>: the value returned, and the effects on \<open>res\<close>.\<close>

fun call :: "world \<Rightarrow> js_function \<Rightarrow> inspectionSet option \<Rightarrow> js_function option \<times> effects" where
  "call w GetHealthCheck req = (Some (getHealthCheck req), \<lparr> sent = [], captured = [], escaped = None \<rparr>)"
| "call w (Handler inspectionSet) req = (None, handle_request w inspectionSet)"

text \<open>The server is its route table (\<open>routes\<close>); \<open>server.get\<close> stores the function under the path.\<close>

definition server_get :: "(string \<rightharpoonup> js_function) \<Rightarrow> string \<Rightarrow> js_function \<Rightarrow> (string \<rightharpoonup> js_function)" where
  "server_get routes routeURI f = routes(routeURI \<mapsto> f)"

definition setupEndpoints :: "(string \<rightharpoonup> js_function) \<Rightarrow> string \<Rightarrow> (string \<rightharpoonup> js_function)" where
  "setupEndpoints routes routeURI = server_get routes routeURI GetHealthCheck"

text \<open>A request to a path: the server calls the function registered there, if any.\<close>

definition dispatch :: "world \<Rightarrow> (string \<rightharpoonup> js_function) \<Rightarrow> string \<Rightarrow> inspectionSet option \<Rightarrow> effects" where
  "dispatch w routes routeURI req =
     (case routes routeURI of
        None \<Rightarrow> \<lparr> sent = [], captured = [], escaped = None \<rparr>
      | Some f \<Rightarrow> snd (call w f req))"

section \<open>Notions used in the statements\<close>

text \<open>
  Every probe of the inspection set yields a boolean and the disk query settles: each
  request gets a response (with any status code) and each function returns a boolean.
\<close>

definition checks_answer :: "world \<Rightarrow> inspectionSet \<Rightarrow> bool" where
  "checks_answer w iset \<longleftrightarrow>
     (case inspectionSet.apis iset of
        None \<Rightarrow> True
      | Some as \<Rightarrow> list_all (\<lambda>api. case request w (url api) of
                                      Response statusCode \<Rightarrow> True
                                    | RequestError e \<Rightarrow> False) as)
   \<and> (case inspectionSet.functions iset of
        None \<Rightarrow> True
      | Some fs \<Rightarrow> list_all (\<lambda>serviceObj. case fn serviceObj of
                                             Fulfilled b \<Rightarrow> True
                                           | Rejected e \<Rightarrow> False
                                           | Pending \<Rightarrow> False) fs)
   \<and> diskspace_check w \<noteq> Pending"

text \<open>Reading a settled promise: its value when fulfilled.\<close>

fun fulfilment :: "'a promise \<Rightarrow> 'a option" where
  "fulfilment (Fulfilled v) = Some v"
| "fulfilment Pending = None"
| "fulfilment (Rejected e) = None"

text \<open>
  Written from the specification: a value rounded to 2 decimal places is the nearest
  multiple of one hundredth (a tie going up), held as a number.
\<close>

definition rounded_to_2_decimals :: "real \<Rightarrow> number" where
  "rounded_to_2_decimals x = round_binary64 (of_int (round (x * 100)) / 100)"

text \<open>
  Rounding to 2 decimal places in the arithmetic of numbers, as \<open>Math.round(v * 100) /
  100\<close> does it: the product and the quotient are each rounded to a double.
\<close>

definition two_decimals :: "number \<Rightarrow> number" where
  "two_decimals v = js_div (Math_round (js_mul v (Finite 100))) (Finite 100)"

section \<open>Concrete scenarios\<close>

definition svc_a :: api where
  "svc_a = \<lparr> name = ''svc-a'', url = ''http://x/health'' \<rparr>"

definition svc_b :: api where
  "svc_b = \<lparr> name = ''svc-b'', url = ''http://y/health'' \<rparr>"

definition check_true :: check_function where
  "check_true = \<lparr> name = ''db'', fn = Fulfilled True \<rparr>"

definition check_false :: check_function where
  "check_false = \<lparr> name = ''queue'', fn = Fulfilled False \<rparr>"

definition check_throws :: check_function where
  "check_throws = \<lparr> name = ''cache'', fn = Rejected (Thrown (Error ''boom'')) \<rparr>"

text \<open>A check whose promise is rejected without a reason, as \<open>Promise.reject()\<close> does.\<close>

definition check_rejects_undefined :: check_function where
  "check_rejects_undefined = \<lparr> name = ''cache'', fn = Rejected Undefined \<rparr>"

text \<open>A host where every endpoint answers 200 and the disk query succeeds.\<close>

definition healthy_world :: world where
  "healthy_world =
     \<lparr> request = (\<lambda>u. Response 200),
       process_heapTotal = Finite 2, process_heapUsed = Finite 1, process_uptime = Finite 90,
       os_totalmem = Finite 4, os_cpus = 2,
       os_loadavg = (Finite 1, Finite (1 / 2), Finite (1 / 4)),
       os_hostname = ''host-1'', os_freemem = Finite 1048576,
       diskspace_check = Fulfilled \<lparr> used = Finite 1, total = Finite 4 \<rparr>,
       Raven = False, apis_order = [], functions_order = [], join_order = [] \<rparr>"

text \<open>The same host when \<open>http://y/health\<close> answers 503.\<close>

definition degraded_world :: world where
  "degraded_world =
     healthy_world \<lparr> request := (\<lambda>u. if u = ''http://y/health'' then Response 503 else Response 200),
                     apis_order := [1, 0] \<rparr>"

text \<open>The same host when every request times out.\<close>

definition timeout_world :: world where
  "timeout_world = healthy_world \<lparr> request := (\<lambda>u. RequestError (Error ''ETIMEDOUT'')) \<rparr>"

text \<open>The same host when the disk query fails.\<close>

definition diskless_world :: world where
  "diskless_world = healthy_world \<lparr> diskspace_check := Rejected (Thrown (Error ''ENOENT'')) \<rparr>"

text \<open>
  A host with 160 bytes of memory of which the heap takes 23, up for 34.5 seconds, with
  40 CPUs and load averages 5.75 and 2.
\<close>

definition busy_world :: world where
  "busy_world =
     healthy_world \<lparr> process_heapTotal := Finite 23, process_heapUsed := Finite 16,
                     process_uptime := Finite (69 / 2), os_totalmem := Finite 160,
                     os_cpus := 40, os_loadavg := (Finite (23 / 4), Finite 2, Finite 1) \<rparr>"

text \<open>The metrics of the healthy host, with the disk usage as parameter.\<close>

definition healthy_metrics :: "number \<Rightarrow> hostMetrics" where
  "healthy_metrics disk =
     \<lparr> process_memory_used_percent = Finite 50, uptime_minutes = Finite (3 / 2),
       cpu_one_minute_average_percent = Finite 50,
       cpu_five_minute_average_percent = Finite 25,
       hostname = ''host-1'', os_free_memory_mb = Finite 1, disk_root_use_percent = disk \<rparr>"

text \<open>Inspection sets: the one endpoint of the specification's scenario, and variations.\<close>

definition inspect_svc_a :: inspectionSet where
  "inspect_svc_a = \<lparr> inspectionSet.apis = Some [svc_a], inspectionSet.functions = Some [] \<rparr>"

definition inspect_mixed :: inspectionSet where
  "inspect_mixed =
     \<lparr> inspectionSet.apis = Some [svc_a, svc_b],
       inspectionSet.functions = Some [check_true, check_false] \<rparr>"

definition inspect_throwing :: inspectionSet where
  "inspect_throwing =
     \<lparr> inspectionSet.apis = Some [svc_a],
       inspectionSet.functions = Some [check_true, check_throws] \<rparr>"

definition inspect_rejects_undefined :: inspectionSet where
  "inspect_rejects_undefined =
     \<lparr> inspectionSet.apis = Some [svc_a],
       inspectionSet.functions = Some [check_true, check_rejects_undefined] \<rparr>"

definition inspect_no_apis :: inspectionSet where
  "inspect_no_apis =
     \<lparr> inspectionSet.apis = None, inspectionSet.functions = Some [check_true, check_false] \<rparr>"

definition inspect_no_functions :: inspectionSet where
  "inspect_no_functions =
     \<lparr> inspectionSet.apis = Some [svc_a], inspectionSet.functions = None \<rparr>"

section \<open>Properties of the promise combinators\<close>

lemma fulfilled_values_Some: "fulfilled_values ps = Some vs \<longleftrightarrow> ps = map Fulfilled vs"
proof (induction ps arbitrary: vs)
  case Nil
  then show ?case by auto
next
  case (Cons p ps)
  then show ?case by (cases p) auto
qed

lemma map_filter_Nil: "List.map_filter g xs = [] \<longleftrightarrow> (\<forall>x\<in>set xs. g x = None)"
  by (induction xs) (auto split: option.splits)

lemma map_filter_hd: "List.map_filter g xs = e # es \<Longrightarrow> \<exists>x\<in>set xs. g x = Some e"
  by (induction xs) (auto split: option.splits)

text \<open>No member is rejected exactly when the aggregate finds no rejection, whatever the order.\<close>

lemma first_rejection_None:
  "first_rejection ps order = None \<longleftrightarrow> (\<forall>p\<in>set ps. rejection p = None)"
proof -
  have "first_rejection ps order = None \<longleftrightarrow>
        List.map_filter (\<lambda>i. if i < length ps then rejection (ps ! i) else None)
          (order @ [0..<length ps]) = []"
    by (simp add: first_rejection_def split: list.splits)
  also have "\<dots> \<longleftrightarrow>
        (\<forall>i\<in>set (order @ [0..<length ps]).
           (if i < length ps then rejection (ps ! i) else None) = None)"
    by (rule map_filter_Nil)
  also have "\<dots> \<longleftrightarrow> (\<forall>i<length ps. rejection (ps ! i) = None)"
    by auto
  also have "\<dots> \<longleftrightarrow> (\<forall>p\<in>set ps. rejection p = None)"
    by (metis in_set_conv_nth)
  finally show ?thesis .
qed

text \<open>The reason of the aggregate is the reason of one of its members.\<close>

lemma first_rejection_Some:
  assumes "first_rejection ps order = Some e"
  shows "Rejected e \<in> set ps"
proof -
  from assms obtain es where
    "List.map_filter (\<lambda>i. if i < length ps then rejection (ps ! i) else None)
       (order @ [0..<length ps]) = e # es"
    by (auto simp: first_rejection_def split: list.splits)
  from map_filter_hd[OF this] obtain i where i: "i < length ps" "rejection (ps ! i) = Some e"
    by (auto split: if_splits)
  then have "ps ! i = Rejected e" by (cases "ps ! i") auto
  with i(1) show ?thesis by (metis nth_mem)
qed

lemma Promise_map_Fulfilled:
  "Promise_map xs f order = Fulfilled vs \<longleftrightarrow> map f xs = map Fulfilled vs"
proof
  assume "Promise_map xs f order = Fulfilled vs"
  then have "fulfilled_values (map f xs) = Some vs"
    by (auto simp: Promise_map_def split: option.splits)
  then show "map f xs = map Fulfilled vs" by (simp add: fulfilled_values_Some)
next
  assume a: "map f xs = map Fulfilled vs"
  then have "fulfilled_values (map f xs) = Some vs" by (simp add: fulfilled_values_Some)
  moreover from a have "first_rejection (map f xs) order = None"
    by (simp add: first_rejection_None)
  ultimately show "Promise_map xs f order = Fulfilled vs" by (simp add: Promise_map_def)
qed

lemma Promise_map_Rejected:
  assumes "Promise_map xs f order = Rejected e"
  shows "\<exists>x\<in>set xs. f x = Rejected e"
proof -
  from assms have "first_rejection (map f xs) order = Some e"
    by (auto simp: Promise_map_def split: option.splits)
  then have "Rejected e \<in> set (map f xs)" by (rule first_rejection_Some)
  then show ?thesis by auto
qed

lemma Promise_map_member_Rejected:
  assumes "x \<in> set xs" and "f x = Rejected e"
  shows "\<exists>e'. Promise_map xs f order = Rejected e'"
proof -
  from assms have "\<not> (\<forall>p\<in>set (map f xs). rejection p = None)" by force
  then have "first_rejection (map f xs) order \<noteq> None"
    by (simp only: first_rejection_None not_False_eq_True)
  then show ?thesis by (auto simp: Promise_map_def)
qed

section \<open>Result reducer\<close>

lemma allOk_foldl: "foldl (\<lambda>flag n. n \<and> flag) b fs = (b \<and> (\<forall>f\<in>set fs. f))"
  by (induction fs arbitrary: b) auto

lemma allOk_iff: "allOk fs = (\<forall>f\<in>set fs. f)"
  by (simp add: allOk_def allOk_foldl)

lemma push_services_zip:
  "length fs = length xs \<Longrightarrow>
   push_services (lodash_zip xs fs) acc =
     Inr (acc @ map (\<lambda>(x, f). \<lparr> name = name x, active = Some f \<rparr>) (zip xs fs))"
  by (induction xs fs arbitrary: acc rule: list_induct2') auto

lemma statusReply_same_length:
  "length fs = length xs \<Longrightarrow>
   statusReply xs fs =
     Inr \<lparr> categoryReport.status = (\<forall>f\<in>set fs. f),
           services = map (\<lambda>(x, f). \<lparr> name = name x, active = Some f \<rparr>) (zip xs fs) \<rparr>"
  by (simp add: statusReply_def push_services_zip allOk_iff)

text \<open>
  C4: for N outcomes paired with N checks, \<open>statusReply\<close> returns a report whose
  \<open>services\<close> has length N and whose \<open>status\<close> is the conjunction of the N \<open>active\<close>
  flags, which is the conjunction of the outcomes; for N = 0 the status is true.
\<close>

theorem statusReply_length_and_status:
  assumes "length statusFlags = length serviceList"
  shows "\<exists>r. statusReply serviceList statusFlags = Inr r
           \<and> length (services r) = length statusFlags
           \<and> categoryReport.status r = list_all (\<lambda>s. active s = Some True) (services r)
           \<and> categoryReport.status r = foldr (\<and>) statusFlags True
           \<and> (statusFlags = [] \<longrightarrow> categoryReport.status r)"
proof -
  let ?svcs = "map (\<lambda>(x, f). \<lparr> name = name x, active = Some f \<rparr>) (zip serviceList statusFlags)"
  from assms have "list_all (\<lambda>s. active s = Some True) ?svcs = (\<forall>f\<in>set statusFlags. f)"
    by (induction statusFlags serviceList rule: list_induct2) auto
  moreover have "foldr (\<and>) statusFlags True = (\<forall>f\<in>set statusFlags. f)"
    by (induction statusFlags) auto
  ultimately show ?thesis
    using assms by (simp add: statusReply_same_length)
qed

theorem statusReply_length_and_status_witness:
  "length [True, False] = length [svc_a, svc_b]
   \<and> statusReply [svc_a, svc_b] [True, False] =
       Inr \<lparr> categoryReport.status = False,
             services = [\<lparr> name = ''svc-a'', active = Some True \<rparr>,
                         \<lparr> name = ''svc-b'', active = Some False \<rparr>] \<rparr>
   \<and> (\<exists>r. statusReply [svc_a, svc_b] [True, False] = Inr r
           \<and> length (services r) = length [True, False]
           \<and> categoryReport.status r = list_all (\<lambda>s. active s = Some True) (services r)
           \<and> categoryReport.status r = foldr (\<and>) [True, False] True
           \<and> ([True, False] = [] \<longrightarrow> categoryReport.status r))"
  using statusReply_length_and_status [of "[True, False]" "[svc_a, svc_b]"]
  by (simp add: statusReply_def allOk_def svc_a_def svc_b_def)

text \<open>
  C5: for checks and outcomes of the same length, the \<open>services\<close> list of \<open>statusReply\<close>
  has the length of the checks, and its entry at position i carries the name of the
  i-th check and the i-th outcome. The outcomes \<open>Promise.map\<close> hands over are stored by
  position: when it fulfils, there are as many as checks and the i-th is the outcome of
  the probe of the i-th check, for every order of completion.
\<close>

theorem statusReply_positional:
  "(length statusFlags = length serviceList \<longrightarrow>
      (\<exists>r. statusReply serviceList statusFlags = Inr r
          \<and> length (services r) = length serviceList
          \<and> (\<forall>i<length serviceList.
                name (services r ! i) = name (serviceList ! i)
              \<and> active (services r ! i) = Some (statusFlags ! i))))
   \<and> (Promise_map serviceList probe order = Fulfilled statusFlags \<longrightarrow>
        length statusFlags = length serviceList
      \<and> (\<forall>i<length serviceList. probe (serviceList ! i) = Fulfilled (statusFlags ! i)))"
proof (intro conjI impI)
  assume "length statusFlags = length serviceList"
  then show "\<exists>r. statusReply serviceList statusFlags = Inr r
          \<and> length (services r) = length serviceList
          \<and> (\<forall>i<length serviceList.
                name (services r ! i) = name (serviceList ! i)
              \<and> active (services r ! i) = Some (statusFlags ! i))"
    by (simp add: statusReply_same_length)
next
  assume "Promise_map serviceList probe order = Fulfilled statusFlags"
  then have "map probe serviceList = map Fulfilled statusFlags"
    by (simp add: Promise_map_Fulfilled)
  then show "length statusFlags = length serviceList" by (metis length_map)
next
  assume "Promise_map serviceList probe order = Fulfilled statusFlags"
  then have m: "map probe serviceList = map Fulfilled statusFlags"
    by (simp add: Promise_map_Fulfilled)
  then have len: "length statusFlags = length serviceList" by (metis length_map)
  show "\<forall>i<length serviceList. probe (serviceList ! i) = Fulfilled (statusFlags ! i)"
  proof (intro allI impI)
    fix i assume i: "i < length serviceList"
    then have "map probe serviceList ! i = probe (serviceList ! i)" by simp
    moreover from i len have "map Fulfilled statusFlags ! i = Fulfilled (statusFlags ! i)" by simp
    ultimately show "probe (serviceList ! i) = Fulfilled (statusFlags ! i)" using m by simp
  qed
qed

theorem statusReply_positional_witness:
  "length [True, False] = length [svc_a, svc_b]
   \<and> Promise_map [svc_a, svc_b] (\<lambda>api. ensureHttp200 degraded_world (url api)) [1, 0]
       = Fulfilled [True, False]
   \<and> (\<exists>r. statusReply [svc_a, svc_b] [True, False] = Inr r
          \<and> length (services r) = length [svc_a, svc_b]
          \<and> (\<forall>i<length [svc_a, svc_b].
                name (services r ! i) = name ([svc_a, svc_b] ! i)
              \<and> active (services r ! i) = Some ([True, False] ! i)))
   \<and> ensureHttp200 degraded_world (url svc_a) = Fulfilled True
   \<and> ensureHttp200 degraded_world (url svc_b) = Fulfilled False"
proof -
  have h1: "length [True, False] = length [svc_a, svc_b]" by simp
  have h2: "Promise_map [svc_a, svc_b] (\<lambda>api. ensureHttp200 degraded_world (url api)) [1, 0]
              = Fulfilled [True, False]"
    by code_simp
  note t = statusReply_positional [of "[True, False]" "[svc_a, svc_b]"
      "\<lambda>api. ensureHttp200 degraded_world (url api)" "[1, 0]"]
  from t h1 have c1: "\<exists>r. statusReply [svc_a, svc_b] [True, False] = Inr r
          \<and> length (services r) = length [svc_a, svc_b]
          \<and> (\<forall>i<length [svc_a, svc_b].
                name (services r ! i) = name ([svc_a, svc_b] ! i)
              \<and> active (services r ! i) = Some ([True, False] ! i))"
    by blast
  from t h2 have c2: "\<forall>i<length [svc_a, svc_b].
      ensureHttp200 degraded_world (url ([svc_a, svc_b] ! i)) = Fulfilled ([True, False] ! i)"
    by blast
  from c2 [rule_format, of 0] have c3: "ensureHttp200 degraded_world (url svc_a) = Fulfilled True"
    by simp
  from c2 [rule_format, of 1] have c4: "ensureHttp200 degraded_world (url svc_b) = Fulfilled False"
    by simp
  from h1 h2 c1 c3 c4 show ?thesis by blast
qed

section \<open>Orchestrator\<close>

lemma Promise_join_Fulfilled:
  "Promise_join a b c order = Fulfilled t \<longleftrightarrow>
     (\<exists>x y z. a = Fulfilled x \<and> b = Fulfilled y \<and> c = Fulfilled z \<and> t = (x, y, z))"
proof (cases "first_rejection [a, b, c] order")
  case None
  then show ?thesis
    by (cases a; cases b; cases c) (auto simp: Promise_join_def)
next
  case (Some e)
  then have "Rejected e \<in> set [a, b, c]" by (rule first_rejection_Some)
  with Some show ?thesis by (auto simp: Promise_join_def)
qed

lemma Promise_join_Rejected:
  assumes "Promise_join a b c order = Rejected e"
  shows "a = Rejected e \<or> b = Rejected e \<or> c = Rejected e"
proof (cases "first_rejection [a, b, c] order")
  case None
  with assms show ?thesis
    by (cases a; cases b; cases c) (auto simp: Promise_join_def)
next
  case (Some e')
  then have "Rejected e' \<in> set [a, b, c]" by (rule first_rejection_Some)
  with Some assms show ?thesis by (auto simp: Promise_join_def)
qed

lemma Promise_join_member_Rejected:
  assumes "a = Rejected e \<or> b = Rejected e \<or> c = Rejected e"
  shows "\<exists>e'. Promise_join a b c order = Rejected e'"
proof -
  from assms have "\<not> (\<forall>p\<in>set [a, b, c]. rejection p = None)" by auto
  then have "first_rejection [a, b, c] order \<noteq> None"
    by (simp only: first_rejection_None not_False_eq_True)
  then show ?thesis by (auto simp: Promise_join_def)
qed

lemma healthCheckServer_not_Rejected: "healthCheckServer w \<noteq> Rejected e"
  by (cases "diskspace_check w") (simp_all add: healthCheckServer_def Let_def)

lemma healthCheckServer_Pending: "healthCheckServer w = Pending \<longleftrightarrow> diskspace_check w = Pending"
  by (cases "diskspace_check w") (simp_all add: healthCheckServer_def Let_def)

lemma promise_then_Fulfilled_iff:
  "promise_then p f = Fulfilled y \<longleftrightarrow> (\<exists>v. p = Fulfilled v \<and> f v = Inr y)"
  by (cases p) (auto split: sum.splits)

lemma promise_then_Rejected_iff:
  "promise_then p f = Rejected e \<longleftrightarrow> p = Rejected e \<or> (\<exists>v. p = Fulfilled v \<and> f v = Inl e)"
  by (cases p) (auto split: sum.splits)

lemma promise_then_Pending_iff: "promise_then p f = Pending \<longleftrightarrow> p = Pending"
  by (cases p) (auto split: sum.splits)

lemma orchestrate_Fulfilled:
  "orchestrate w (Some iset) = Inr (Fulfilled info) \<longleftrightarrow>
     (\<exists>a f s. executeApis w (inspectionSet.apis iset) = Fulfilled a
            \<and> executeFunctions w (inspectionSet.functions iset) = Fulfilled f
            \<and> healthCheckServer w = Fulfilled s
            \<and> info = \<lparr> envelope.status = 200,
                       data = Composite \<lparr> server = Some s, compositeReport.apis = Some a,
                                          compositeReport.functions = Some f \<rparr> \<rparr>)"
  by (auto simp: orchestrate_def Let_def promise_then_Fulfilled_iff Promise_join_Fulfilled)

lemma orchestrate_Rejected:
  assumes "orchestrate w (Some iset) = Inr (Rejected e)"
  shows "executeApis w (inspectionSet.apis iset) = Rejected e
       \<or> executeFunctions w (inspectionSet.functions iset) = Rejected e"
proof -
  let ?a = "promise_then (executeApis w (inspectionSet.apis iset))
              (\<lambda>apiStatus. Inr (\<lambda>result::compositeReport. result \<lparr> compositeReport.apis := Some apiStatus \<rparr>))"
  let ?b = "promise_then (executeFunctions w (inspectionSet.functions iset))
              (\<lambda>funcStatus. Inr (\<lambda>result::compositeReport. result \<lparr> compositeReport.functions := Some funcStatus \<rparr>))"
  let ?c = "promise_then (healthCheckServer w)
              (\<lambda>data. Inr (\<lambda>result::compositeReport. result \<lparr> server := Some data \<rparr>))"
  from assms have "Promise_join ?a ?b ?c (join_order w) = Rejected e"
    unfolding orchestrate_def Let_def
    by (auto simp: promise_then_Rejected_iff split: prod.splits)
  then have "?a = Rejected e \<or> ?b = Rejected e \<or> ?c = Rejected e"
    by (rule Promise_join_Rejected)
  then show ?thesis
    using healthCheckServer_not_Rejected by (auto simp: promise_then_Rejected_iff)
qed

lemma orchestrate_member_Rejected:
  assumes "executeApis w (inspectionSet.apis iset) = Rejected e
       \<or> executeFunctions w (inspectionSet.functions iset) = Rejected e"
  shows "\<exists>e'. orchestrate w (Some iset) = Inr (Rejected e')"
proof -
  let ?a = "promise_then (executeApis w (inspectionSet.apis iset))
              (\<lambda>apiStatus. Inr (\<lambda>result::compositeReport. result \<lparr> compositeReport.apis := Some apiStatus \<rparr>))"
  let ?b = "promise_then (executeFunctions w (inspectionSet.functions iset))
              (\<lambda>funcStatus. Inr (\<lambda>result::compositeReport. result \<lparr> compositeReport.functions := Some funcStatus \<rparr>))"
  let ?c = "promise_then (healthCheckServer w)
              (\<lambda>data. Inr (\<lambda>result::compositeReport. result \<lparr> server := Some data \<rparr>))"
  from assms have "?a = Rejected e \<or> ?b = Rejected e \<or> ?c = Rejected e" by auto
  then obtain e' where "Promise_join ?a ?b ?c (join_order w) = Rejected e'"
    using Promise_join_member_Rejected by blast
  then show ?thesis
    unfolding orchestrate_def Let_def
    by (auto simp: promise_then_Rejected_iff)
qed

lemma orchestrate_None:
  "orchestrate w None = Inl (Thrown (TypeError ''Cannot read property apis of undefined''))"
  by (simp add: orchestrate_def)

section \<open>Probers that answer\<close>

lemma all_Fulfilled_map:
  "list_all (\<lambda>x. case f x of Fulfilled b \<Rightarrow> True | Rejected e \<Rightarrow> False | Pending \<Rightarrow> False) xs \<Longrightarrow>
   \<exists>vs. map f xs = map Fulfilled vs"
proof (induction xs)
  case Nil
  then show ?case by simp
next
  case (Cons x xs)
  then obtain vs where "map f xs = map Fulfilled vs" by auto
  moreover from Cons.prems obtain b where "f x = Fulfilled b"
    by (cases "f x") auto
  ultimately have "map f (x # xs) = map Fulfilled (b # vs)" by simp
  then show ?case by blast
qed

lemma prober_Fulfilled:
  assumes "map f xs = map Fulfilled vs"
  shows "\<exists>r. promise_then (Promise_map xs f order)
            (\<lambda>statusFlags. map_sum Thrown Report (statusReply xs statusFlags)) = Fulfilled (Report r)"
proof -
  from assms have "length vs = length xs" by (metis length_map)
  then obtain r where "statusReply xs vs = Inr r" by (simp add: statusReply_same_length)
  moreover from assms have "Promise_map xs f order = Fulfilled vs"
    by (simp add: Promise_map_Fulfilled)
  ultimately show ?thesis by simp
qed

lemma ensureHttp200_Response: "request w u = Response c \<Longrightarrow> ensureHttp200 w u = Fulfilled (c = 200)"
  by (simp add: ensureHttp200_def ensureHttp200_callback_def)

lemma ensureHttp200_RequestError:
  "request w u = RequestError e \<Longrightarrow> ensureHttp200 w u = Rejected (Thrown e)"
  by (simp add: ensureHttp200_def ensureHttp200_callback_def)

lemma executeApis_answer:
  assumes "case apiList of None \<Rightarrow> True
           | Some as \<Rightarrow> list_all (\<lambda>api. case request w (url api) of
                                      Response statusCode \<Rightarrow> True
                                    | RequestError e \<Rightarrow> False) as"
  shows "\<exists>a. executeApis w apiList = Fulfilled a"
proof (cases apiList)
  case None
  then show ?thesis by (simp add: executeApis_def)
next
  case (Some as)
  with assms have "list_all (\<lambda>api. case request w (url api) of
                                      Response statusCode \<Rightarrow> True
                                    | RequestError e \<Rightarrow> False) as" by simp
  then have "list_all (\<lambda>api. case ensureHttp200 w (url api) of
               Fulfilled b \<Rightarrow> True | Rejected e \<Rightarrow> False | Pending \<Rightarrow> False) as"
    by (induction as)
       (auto simp: ensureHttp200_def ensureHttp200_callback_def split: http_result.splits)
  then obtain vs where "map (\<lambda>api. ensureHttp200 w (url api)) as = map Fulfilled vs"
    using all_Fulfilled_map [where f = "\<lambda>api. ensureHttp200 w (url api)" and xs = as] by auto
  from prober_Fulfilled[OF this] Some show ?thesis
    by (auto simp: executeApis_def)
qed

lemma executeFunctions_answer:
  assumes "case functionList of None \<Rightarrow> True
           | Some fs \<Rightarrow> list_all (\<lambda>serviceObj. case fn serviceObj of
                                             Fulfilled b \<Rightarrow> True
                                           | Rejected e \<Rightarrow> False
                                           | Pending \<Rightarrow> False) fs"
  shows "\<exists>f. executeFunctions w functionList = Fulfilled f"
proof (cases functionList)
  case None
  then show ?thesis by (simp add: executeFunctions_def)
next
  case (Some fs)
  with assms obtain vs where "map fn fs = map Fulfilled vs"
    using all_Fulfilled_map [where f = fn and xs = fs] by auto
  from prober_Fulfilled[OF this] Some show ?thesis
    by (auto simp: executeFunctions_def)
qed

lemma healthCheckServer_settles:
  "diskspace_check w \<noteq> Pending \<Longrightarrow> \<exists>s. healthCheckServer w = Fulfilled s"
  by (cases "healthCheckServer w")
     (simp_all add: healthCheckServer_Pending healthCheckServer_not_Rejected)

lemma orchestrate_answer:
  assumes "checks_answer w iset"
  shows "\<exists>report. orchestrate w (Some iset)
           = Inr (Fulfilled \<lparr> envelope.status = 200, data = Composite report \<rparr>)"
proof -
  from assms obtain a where "executeApis w (inspectionSet.apis iset) = Fulfilled a"
    using executeApis_answer unfolding checks_answer_def by blast
  moreover from assms obtain f where "executeFunctions w (inspectionSet.functions iset) = Fulfilled f"
    using executeFunctions_answer unfolding checks_answer_def by blast
  moreover from assms obtain s where "healthCheckServer w = Fulfilled s"
    using healthCheckServer_settles unfolding checks_answer_def by blast
  ultimately show ?thesis by (simp add: orchestrate_Fulfilled)
qed

lemma orchestrate_status_200:
  "orchestrate w inspectionSet = Inr (Fulfilled info) \<Longrightarrow> envelope.status info = 200"
  by (cases inspectionSet) (auto simp: orchestrate_None orchestrate_Fulfilled)

text \<open>
  When one prober is rejected and the other fulfilled, the promise of \<open>orchestrate\<close> is
  rejected with that prober's reason.
\<close>

lemma orchestrate_Rejected_by_functions:
  assumes "executeApis w (inspectionSet.apis iset) = Fulfilled a"
    and "executeFunctions w (inspectionSet.functions iset) = Rejected e"
  shows "orchestrate w (Some iset) = Inr (Rejected e)"
proof -
  from assms(2) obtain e' where e': "orchestrate w (Some iset) = Inr (Rejected e')"
    using orchestrate_member_Rejected by blast
  from orchestrate_Rejected [OF e'] assms have "e' = e" by auto
  with e' show ?thesis by simp
qed

lemma orchestrate_Rejected_by_apis:
  assumes "executeApis w (inspectionSet.apis iset) = Rejected e"
    and "executeFunctions w (inspectionSet.functions iset) = Fulfilled f"
  shows "orchestrate w (Some iset) = Inr (Rejected e)"
proof -
  from assms(1) obtain e' where e': "orchestrate w (Some iset) = Inr (Rejected e')"
    using orchestrate_member_Rejected by blast
  from orchestrate_Rejected [OF e'] assms have "e' = e" by auto
  with e' show ?thesis by simp
qed

section \<open>Route handler\<close>

text \<open>Every response the handler sends has HTTP status 200 and \<open>status: 200\<close> in its body.\<close>

lemma handle_request_sent_200:
  assumes "r \<in> set (sent (handle_request w inspectionSet))"
  shows "fst r = 200 \<and> envelope.status (snd r) = 200"
  using assms
  by (auto simp: handle_request_def orchestrate_status_200 split: sum.splits promise.splits)

text \<open>When every probe yields a boolean, the handler sends the composite report.\<close>

lemma handle_request_answer:
  assumes "checks_answer w iset"
  shows "\<exists>report. handle_request w (Some iset)
           = \<lparr> sent = [(200, \<lparr> envelope.status = 200, data = Composite report \<rparr>)],
               captured = [], escaped = None \<rparr>"
proof -
  from orchestrate_answer [OF assms] obtain report where
    "orchestrate w (Some iset)
       = Inr (Fulfilled \<lparr> envelope.status = 200, data = Composite report \<rparr>)"
    by blast
  then show ?thesis by (simp add: handle_request_def)
qed

text \<open>
  When \<open>orchestrate\<close> throws or its promise is rejected, and what was thrown has a
  readable \<open>message\<close>, the handler sends the message.
\<close>

lemma handle_request_message:
  assumes "orchestrate w inspectionSet = Inl e \<or> orchestrate w inspectionSet = Inr (Rejected e)"
    and "read_message e = Inr msg"
  shows "sent (handle_request w inspectionSet)
           = [(200, \<lparr> envelope.status = 200, data = Message msg \<rparr>)]"
  using assms by (auto simp: handle_request_def)

text \<open>
  The handler in the four cases of the specification: every check passes, some checks
  fail, \<open>orchestrate\<close> throws (there is no inspection set), and a check function throws
  an error.
\<close>

lemma handle_request_scenarios:
  "(\<exists>report. handle_request healthy_world (Some inspect_svc_a)
       = \<lparr> sent = [(200, \<lparr> envelope.status = 200, data = Composite report \<rparr>)],
           captured = [], escaped = None \<rparr>)
   \<and> (\<exists>report. handle_request degraded_world (Some inspect_mixed)
       = \<lparr> sent = [(200, \<lparr> envelope.status = 200, data = Composite report \<rparr>)],
           captured = [], escaped = None \<rparr>)
   \<and> sent (handle_request healthy_world None)
       = [(200, \<lparr> envelope.status = 200,
                   data = Message (Some ''Cannot read property apis of undefined'') \<rparr>)]
   \<and> sent (handle_request healthy_world (Some inspect_throwing))
       = [(200, \<lparr> envelope.status = 200, data = Message (Some ''boom'') \<rparr>)]"
proof -
  have a: "checks_answer healthy_world inspect_svc_a" by code_simp
  have b: "checks_answer degraded_world inspect_mixed" by code_simp
  have c: "orchestrate healthy_world None
        = Inl (Thrown (TypeError ''Cannot read property apis of undefined''))"
    by (rule orchestrate_None)
  have da: "executeApis healthy_world (inspectionSet.apis inspect_throwing)
        = Fulfilled (Report \<lparr> categoryReport.status = True,
                 services = [\<lparr> name = ''svc-a'', active = Some True \<rparr>] \<rparr>)"
    by code_simp
  have df: "executeFunctions healthy_world (inspectionSet.functions inspect_throwing)
        = Rejected (Thrown (Error ''boom''))"
    by code_simp
  have d: "orchestrate healthy_world (Some inspect_throwing)
        = Inr (Rejected (Thrown (Error ''boom'')))"
    using da df by (rule orchestrate_Rejected_by_functions)
  from c have c': "sent (handle_request healthy_world None)
       = [(200, \<lparr> envelope.status = 200,
                   data = Message (Some ''Cannot read property apis of undefined'') \<rparr>)]"
    by (simp add: handle_request_def)
  from d have d': "sent (handle_request healthy_world (Some inspect_throwing))
       = [(200, \<lparr> envelope.status = 200, data = Message (Some ''boom'') \<rparr>)]"
    by (simp add: handle_request_def)
  from handle_request_answer [OF a] handle_request_answer [OF b] c' d' show ?thesis by blast
qed

text \<open>
  C2: the route handler is expected to answer with HTTP status 200 in every case, with
  the body \<open>{ status: 200, data: { message: ... } }\<close> when the promise of \<open>orchestrate\<close>
  is rejected. When a check function rejects without a reason (the reason is
  \<open>undefined\<close>), the promise of \<open>orchestrate\<close> is rejected with \<open>undefined\<close>, the
  handler's \<open>.catch\<close> throws on reading \<open>err.message\<close>, and no response is sent at all.
\<close>

theorem rejection_without_reason_sends_nothing:
  "fn check_rejects_undefined = Rejected Undefined
   \<and> executeFunctions healthy_world (inspectionSet.functions inspect_rejects_undefined)
       = Rejected Undefined
   \<and> orchestrate healthy_world (Some inspect_rejects_undefined) = Inr (Rejected Undefined)
   \<and> handle_request healthy_world (Some inspect_rejects_undefined)
       = \<lparr> sent = [], captured = [],
           escaped = Some (Thrown (TypeError ''Cannot read property message of undefined'')) \<rparr>"
proof -
  have a: "executeApis healthy_world (inspectionSet.apis inspect_rejects_undefined)
        = Fulfilled (Report \<lparr> categoryReport.status = True,
                 services = [\<lparr> name = ''svc-a'', active = Some True \<rparr>] \<rparr>)"
    by code_simp
  have f: "executeFunctions healthy_world (inspectionSet.functions inspect_rejects_undefined)
        = Rejected Undefined"
    by code_simp
  have o: "orchestrate healthy_world (Some inspect_rejects_undefined) = Inr (Rejected Undefined)"
    using a f by (rule orchestrate_Rejected_by_functions)
  have h: "handle_request healthy_world (Some inspect_rejects_undefined)
       = \<lparr> sent = [], captured = [],
           escaped = Some (Thrown (TypeError ''Cannot read property message of undefined'')) \<rparr>"
    by (simp add: handle_request_def o)
  have c: "fn check_rejects_undefined = Rejected Undefined"
    by (simp add: check_rejects_undefined_def)
  from c f o h show ?thesis by blast
qed

section \<open>Transport errors\<close>

text \<open>
  C1: the probe is expected to yield \<open>false\<close> on a transport error and never to let the
  error escape the prober. The callback does pass \<open>false\<close> as its value, but together
  with the error, so the promisified probe is rejected: when the request to
  \<open>http://x/health\<close> times out, \<open>ensureHttp200\<close> is rejected with the timeout error
  and so is \<open>executeApis\<close>.
\<close>

theorem ensureHttp200_rejects_on_transport_error:
  "request timeout_world ''http://x/health'' = RequestError (Error ''ETIMEDOUT'')
   \<and> ensureHttp200_callback timeout_world ''http://x/health'' = (Some (Error ''ETIMEDOUT''), False)
   \<and> ensureHttp200 timeout_world ''http://x/health'' = Rejected (Thrown (Error ''ETIMEDOUT''))
   \<and> executeApis timeout_world (Some [svc_a]) = Rejected (Thrown (Error ''ETIMEDOUT''))"
  by code_simp

text \<open>
  C3: for the inspection set with the single endpoint \<open>svc-a\<close> and no function, when
  the request times out the handler still sends HTTP 200, but the body is the error
  message of the timeout: it has no \<open>apis\<close> report, hence no \<open>apis.status\<close> and no
  \<open>apis.services[0].active\<close>.
\<close>

theorem timeout_scenario_sends_message:
  "handle_request timeout_world (Some inspect_svc_a)
     = \<lparr> sent = [(200, \<lparr> envelope.status = 200, data = Message (Some ''ETIMEDOUT'') \<rparr>)],
         captured = [], escaped = None \<rparr>"
proof -
  have a: "executeApis timeout_world (inspectionSet.apis inspect_svc_a)
        = Rejected (Thrown (Error ''ETIMEDOUT''))"
    by code_simp
  have f: "executeFunctions timeout_world (inspectionSet.functions inspect_svc_a)
        = Fulfilled (Report \<lparr> categoryReport.status = True, services = [] \<rparr>)"
    by code_simp
  have r: "Raven timeout_world = False" by code_simp
  have "orchestrate timeout_world (Some inspect_svc_a)
        = Inr (Rejected (Thrown (Error ''ETIMEDOUT'')))"
    using a f by (rule orchestrate_Rejected_by_apis)
  then show ?thesis by (simp add: handle_request_def r)
qed

section \<open>Function prober\<close>

text \<open>
  C8: when a function of the inspection set throws or rejects, \<open>executeFunctions\<close> is
  rejected with the reason of one of its failing functions, it is never fulfilled (no
  outcome \<open>false\<close> stands in for the failure), and the promise of \<open>orchestrate\<close> is
  rejected as well.
\<close>

theorem function_failure_propagates:
  assumes "serviceObj \<in> set fs" and "fn serviceObj = Rejected e"
  shows "(\<exists>e'. executeFunctions w (Some fs) = Rejected e' \<and> (\<exists>s\<in>set fs. fn s = Rejected e'))
       \<and> (\<forall>a. executeFunctions w (Some fs) \<noteq> Fulfilled a)
       \<and> (\<forall>iset. inspectionSet.functions iset = Some fs \<longrightarrow>
             (\<exists>e'. orchestrate w (Some iset) = Inr (Rejected e')))"
proof -
  from assms obtain e' where m: "Promise_map fs fn (functions_order w) = Rejected e'"
    using Promise_map_member_Rejected [where f = fn] by blast
  then have s: "\<exists>s\<in>set fs. fn s = Rejected e'" by (rule Promise_map_Rejected)
  from m have x: "executeFunctions w (Some fs) = Rejected e'"
    by (simp add: executeFunctions_def)
  have "\<exists>e''. orchestrate w (Some iset) = Inr (Rejected e'')"
    if "inspectionSet.functions iset = Some fs" for iset
    using that x orchestrate_member_Rejected [of w iset e'] by simp
  with x s show ?thesis by auto
qed

theorem function_failure_propagates_witness:
  "check_throws \<in> set [check_true, check_throws]
   \<and> fn check_throws = Rejected (Thrown (Error ''boom''))
   \<and> executeFunctions healthy_world (Some [check_true, check_throws]) = Rejected (Thrown (Error ''boom''))
   \<and> (\<exists>e'. orchestrate healthy_world (Some inspect_throwing) = Inr (Rejected e'))"
proof -
  have a: "check_throws \<in> set [check_true, check_throws]" by simp
  have b: "fn check_throws = Rejected (Thrown (Error ''boom''))" by (simp add: check_throws_def)
  have c: "inspectionSet.functions inspect_throwing = Some [check_true, check_throws]"
    by (simp add: inspect_throwing_def)
  have d: "executeFunctions healthy_world (Some [check_true, check_throws]) = Rejected (Thrown (Error ''boom''))"
    by code_simp
  from function_failure_propagates [OF a b, of healthy_world] c
  have "\<exists>e'. orchestrate healthy_world (Some inspect_throwing) = Inr (Rejected e')"
    by blast
  with a b d show ?thesis by blast
qed

section \<open>Absent categories\<close>

text \<open>
  C6: when \<open>apis\<close> is absent, \<open>executeApis\<close> fulfils with the empty array, which has
  neither \<open>status\<close> nor \<open>services\<close>; \<open>orchestrate\<close> fulfils exactly when the function
  prober and the metrics collector do, and its report then holds the key \<open>apis\<close> with
  the empty array, next to the unchanged results of the other two. Likewise when
  \<open>functions\<close> is absent.
\<close>

theorem absent_category_is_empty_array:
  "(inspectionSet.apis iset = None \<longrightarrow>
      executeApis w (inspectionSet.apis iset) = Fulfilled EmptyArray
    \<and> (\<forall>info. orchestrate w (Some iset) = Inr (Fulfilled info) \<longleftrightarrow>
          (\<exists>f s. executeFunctions w (inspectionSet.functions iset) = Fulfilled f
                \<and> healthCheckServer w = Fulfilled s
                \<and> info = \<lparr> envelope.status = 200,
                           data = Composite \<lparr> server = Some s,
                                              compositeReport.apis = Some EmptyArray,
                                              compositeReport.functions = Some f \<rparr> \<rparr>)))
   \<and> (inspectionSet.functions iset = None \<longrightarrow>
      executeFunctions w (inspectionSet.functions iset) = Fulfilled EmptyArray
    \<and> (\<forall>info. orchestrate w (Some iset) = Inr (Fulfilled info) \<longleftrightarrow>
          (\<exists>a s. executeApis w (inspectionSet.apis iset) = Fulfilled a
                \<and> healthCheckServer w = Fulfilled s
                \<and> info = \<lparr> envelope.status = 200,
                           data = Composite \<lparr> server = Some s,
                                              compositeReport.apis = Some a,
                                              compositeReport.functions = Some EmptyArray \<rparr> \<rparr>)))
   \<and> category_status EmptyArray = None
   \<and> category_services EmptyArray = None"
proof (intro conjI impI)
  assume "inspectionSet.apis iset = None"
  then show "executeApis w (inspectionSet.apis iset) = Fulfilled EmptyArray"
    by (simp add: executeApis_def)
next
  assume "inspectionSet.apis iset = None"
  then have "executeApis w (inspectionSet.apis iset) = Fulfilled EmptyArray"
    by (simp add: executeApis_def)
  then show "\<forall>info. orchestrate w (Some iset) = Inr (Fulfilled info) \<longleftrightarrow>
          (\<exists>f s. executeFunctions w (inspectionSet.functions iset) = Fulfilled f
                \<and> healthCheckServer w = Fulfilled s
                \<and> info = \<lparr> envelope.status = 200,
                           data = Composite \<lparr> server = Some s,
                                              compositeReport.apis = Some EmptyArray,
                                              compositeReport.functions = Some f \<rparr> \<rparr>)"
    by (auto simp: orchestrate_Fulfilled)
next
  assume "inspectionSet.functions iset = None"
  then show "executeFunctions w (inspectionSet.functions iset) = Fulfilled EmptyArray"
    by (simp add: executeFunctions_def)
next
  assume "inspectionSet.functions iset = None"
  then have "executeFunctions w (inspectionSet.functions iset) = Fulfilled EmptyArray"
    by (simp add: executeFunctions_def)
  then show "\<forall>info. orchestrate w (Some iset) = Inr (Fulfilled info) \<longleftrightarrow>
          (\<exists>a s. executeApis w (inspectionSet.apis iset) = Fulfilled a
                \<and> healthCheckServer w = Fulfilled s
                \<and> info = \<lparr> envelope.status = 200,
                           data = Composite \<lparr> server = Some s,
                                              compositeReport.apis = Some a,
                                              compositeReport.functions = Some EmptyArray \<rparr> \<rparr>)"
    by (auto simp: orchestrate_Fulfilled)
qed simp_all

theorem absent_category_is_empty_array_witness:
  "inspectionSet.apis inspect_no_apis = None
   \<and> (\<exists>s. orchestrate healthy_world (Some inspect_no_apis)
        = Inr (Fulfilled \<lparr> envelope.status = 200,
             data = Composite \<lparr> server = Some s,
               compositeReport.apis = Some EmptyArray,
               compositeReport.functions = Some (Report \<lparr> categoryReport.status = False,
                 services = [\<lparr> name = ''db'', active = Some True \<rparr>,
                             \<lparr> name = ''queue'', active = Some False \<rparr>] \<rparr>) \<rparr> \<rparr>))
   \<and> inspectionSet.functions inspect_no_functions = None
   \<and> (\<exists>s. orchestrate healthy_world (Some inspect_no_functions)
        = Inr (Fulfilled \<lparr> envelope.status = 200,
             data = Composite \<lparr> server = Some s,
               compositeReport.apis = Some (Report \<lparr> categoryReport.status = True,
                 services = [\<lparr> name = ''svc-a'', active = Some True \<rparr>] \<rparr>),
               compositeReport.functions = Some EmptyArray \<rparr> \<rparr>))"
proof -
  have a: "inspectionSet.apis inspect_no_apis = None" by (simp add: inspect_no_apis_def)
  have b: "inspectionSet.functions inspect_no_functions = None"
    by (simp add: inspect_no_functions_def)
  have f: "executeFunctions healthy_world (inspectionSet.functions inspect_no_apis)
        = Fulfilled (Report \<lparr> categoryReport.status = False,
                 services = [\<lparr> name = ''db'', active = Some True \<rparr>,
                             \<lparr> name = ''queue'', active = Some False \<rparr>] \<rparr>)"
    by code_simp
  have g: "executeApis healthy_world (inspectionSet.apis inspect_no_functions)
        = Fulfilled (Report \<lparr> categoryReport.status = True,
                 services = [\<lparr> name = ''svc-a'', active = Some True \<rparr>] \<rparr>)"
    by code_simp
  have "diskspace_check healthy_world \<noteq> Pending" by (simp add: healthy_world_def)
  then obtain s where s: "healthCheckServer healthy_world = Fulfilled s"
    using healthCheckServer_settles by blast
  from a f s absent_category_is_empty_array [of inspect_no_apis healthy_world]
  have a': "\<exists>s. orchestrate healthy_world (Some inspect_no_apis)
        = Inr (Fulfilled \<lparr> envelope.status = 200,
             data = Composite \<lparr> server = Some s,
               compositeReport.apis = Some EmptyArray,
               compositeReport.functions = Some (Report \<lparr> categoryReport.status = False,
                 services = [\<lparr> name = ''db'', active = Some True \<rparr>,
                             \<lparr> name = ''queue'', active = Some False \<rparr>] \<rparr>) \<rparr> \<rparr>)"
    by blast
  from b g s absent_category_is_empty_array [of inspect_no_functions healthy_world]
  have b': "\<exists>s. orchestrate healthy_world (Some inspect_no_functions)
        = Inr (Fulfilled \<lparr> envelope.status = 200,
             data = Composite \<lparr> server = Some s,
               compositeReport.apis = Some (Report \<lparr> categoryReport.status = True,
                 services = [\<lparr> name = ''svc-a'', active = Some True \<rparr>] \<rparr>),
               compositeReport.functions = Some EmptyArray \<rparr> \<rparr>)"
    by blast
  from a a' b b' show ?thesis by blast
qed

section \<open>The arithmetic of numbers\<close>

text \<open>The leading bit of a numeral, read off its binary digits.\<close>

lemma log2_floor_numeral:
  "log2_floor 0 = 0"
  "log2_floor 1 = 0"
  "log2_floor (Suc 0) = 0"
  "log2_floor (numeral Num.One) = 0"
  "log2_floor (numeral (Num.Bit0 k)) = log2_floor (numeral k) + 1"
  "log2_floor (numeral (Num.Bit1 k)) = log2_floor (numeral k) + 1"
proof -
  show "log2_floor 0 = 0" by (simp add: log2_floor.simps)
  show "log2_floor 1 = 0" by (simp add: log2_floor.simps)
  show "log2_floor (Suc 0) = 0" by (simp add: log2_floor.simps)
  show "log2_floor (numeral Num.One) = 0" by (simp add: log2_floor.simps)
  have "numeral (Num.Bit0 k) div (2::nat) = numeral k" by simp
  moreover have "\<not> numeral (Num.Bit0 k) < (2::nat)" by simp
  ultimately show "log2_floor (numeral (Num.Bit0 k)) = log2_floor (numeral k) + 1"
    by (subst log2_floor.simps) simp
  have "numeral (Num.Bit1 k) div (2::nat) = numeral k" by simp
  moreover have "\<not> numeral (Num.Bit1 k) < (2::nat)" by simp
  ultimately show "log2_floor (numeral (Num.Bit1 k)) = log2_floor (numeral k) + 1"
    by (subst log2_floor.simps) simp
qed

lemma log2_floor_bounds:
  "0 < n \<Longrightarrow> 2 ^ log2_floor n \<le> n \<and> n < 2 ^ (log2_floor n + 1)"
proof (induction n rule: log2_floor.induct)
  case (1 n)
  show ?case
  proof (cases "n < 2")
    case True
    with "1.prems" have "n = 1" by simp
    then show ?thesis by (simp add: log2_floor.simps)
  next
    case False
    then have pos: "0 < n div 2" by simp
    from "1.IH" [OF False pos]
    have lo: "2 ^ log2_floor (n div 2) \<le> n div 2"
      and hi: "n div 2 < 2 ^ (log2_floor (n div 2) + 1)" by simp_all
    from False have eq: "log2_floor n = log2_floor (n div 2) + 1"
      by (subst log2_floor.simps) simp
    from lo have "2 * 2 ^ log2_floor (n div 2) \<le> 2 * (n div 2)" by simp
    also have "\<dots> \<le> n" by simp
    finally have a: "2 ^ log2_floor n \<le> n" by (simp add: eq)
    from hi have "n div 2 + 1 \<le> 2 ^ (log2_floor (n div 2) + 1)" by simp
    then have "2 * (n div 2) + 2 \<le> 2 * 2 ^ (log2_floor (n div 2) + 1)" by simp
    moreover have "n < 2 * (n div 2) + 2" by presburger
    ultimately have b: "n < 2 ^ (log2_floor n + 1)" by (simp add: eq)
    from a b show ?thesis by simp
  qed
qed

lemma pow2_nonneg: "pow2 (int k) = 2 ^ k"
  by (simp add: pow2_def)

lemma pow2_neg: "pow2 (- int k) = 1 / 2 ^ k"
proof (cases k)
  case 0
  then show ?thesis by (simp add: pow2_def)
next
  case (Suc n)
  have "\<not> 0 \<le> - int (Suc n)" by simp
  moreover have "nat (- (- int (Suc n))) = Suc n" by simp
  ultimately show ?thesis unfolding Suc pow2_def by (simp only: if_False)
qed

lemma pow2_pos: "0 < pow2 k"
  by (simp add: pow2_def)

lemma pow2_Suc: "pow2 (k + 1) = 2 * pow2 k"
proof (cases "0 \<le> k")
  case True
  then show ?thesis by (simp add: pow2_def nat_add_distrib)
next
  case False
  then obtain n where k: "k = - int (Suc n)"
    by (metis add.inverse_inverse nat_minus_as_int neg_0_less_iff_less not_le zero_less_imp_eq_int old.nat.exhaust int_ops(1) less_irrefl)
  have "pow2 (- int (Suc n) + 1) = pow2 (- int n)" by simp
  then show ?thesis unfolding k pow2_neg by simp
qed

text \<open>A value of at least 1 lies between the powers of two around its integer part.\<close>

lemma floor_between_powers:
  assumes "1 \<le> (y::real)"
  shows "2 ^ log2_floor (nat \<lfloor>y\<rfloor>) \<le> y \<and> y < 2 ^ (log2_floor (nat \<lfloor>y\<rfloor>) + 1)"
proof -
  let ?n = "nat \<lfloor>y\<rfloor>"
  from assms have n: "0 < ?n" by simp
  from assms have ny: "real ?n \<le> y" by simp
  have yn: "y < real ?n + 1" using assms by linarith
  from log2_floor_bounds [OF n]
  have lo: "2 ^ log2_floor ?n \<le> ?n" and hi: "?n + 1 \<le> 2 ^ (log2_floor ?n + 1)" by simp_all
  from lo have "(2::real) ^ log2_floor ?n \<le> real ?n"
    by (metis of_nat_le_iff of_nat_numeral of_nat_power)
  with ny have a: "2 ^ log2_floor ?n \<le> y" by linarith
  from hi have "real ?n + 1 \<le> 2 ^ (log2_floor ?n + 1)"
    by (metis of_nat_le_iff of_nat_numeral of_nat_power of_nat_Suc Suc_eq_plus1 of_nat_add of_nat_1)
  with yn have b: "y < 2 ^ (log2_floor ?n + 1)" by linarith
  from a b show ?thesis by simp
qed

lemma exponent_bounds:
  assumes "0 < a"
  shows "pow2 (exponent a) \<le> a \<and> a < pow2 (exponent a + 1)"
proof (cases "1 \<le> a")
  case True
  let ?k = "log2_floor (nat \<lfloor>a\<rfloor>)"
  from floor_between_powers [OF True]
  have lo: "2 ^ ?k \<le> a" and hi: "a < 2 ^ (?k + 1)" by simp_all
  have p1: "pow2 (int ?k + 1) = 2 ^ (?k + 1)"
    using pow2_nonneg [of "?k + 1"] by (simp add: add.commute)
  from hi p1 have "\<not> pow2 (int ?k + 1) \<le> a" by simp
  with True have "exponent a = int ?k" by (simp add: exponent_def)
  with lo hi p1 show ?thesis by (simp add: pow2_nonneg)
next
  case False
  let ?y = "1 / a"
  let ?k = "log2_floor (nat \<lfloor>?y\<rfloor>)"
  from False assms have y: "1 \<le> ?y" by simp
  from floor_between_powers [OF y]
  have lo: "2 ^ ?k \<le> ?y" and hi: "?y < 2 ^ (?k + 1)" by simp_all
  from lo assms have up: "a \<le> 1 / 2 ^ ?k"
    by (simp add: field_simps)
  from hi assms have low: "1 / 2 ^ (?k + 1) < a"
    by (simp add: field_simps)
  have e0: "- int ?k - 1 = - int (?k + 1)" by simp
  have p0: "pow2 (- int ?k - 1) = 1 / 2 ^ (?k + 1)" unfolding e0 by (rule pow2_neg)
  have p1: "pow2 (- int ?k - 1 + 1) = 1 / 2 ^ ?k" using pow2_neg [of ?k] by simp
  show ?thesis
  proof (cases "pow2 (- int ?k - 1 + 1) \<le> a")
    case True
    with False have e: "exponent a = - int ?k - 1 + 1" by (simp add: exponent_def Let_def)
    have "pow2 (- int ?k - 1 + 1 + 1) = 2 * (1 / 2 ^ ?k)" using pow2_Suc [of "- int ?k - 1 + 1"] p1 by simp
    moreover have "a < 2 * (1 / 2 ^ ?k)" using up by (smt (verit) zero_less_power divide_pos_pos)
    ultimately show ?thesis using True e by simp
  next
    case c: False
    with False have e: "exponent a = - int ?k - 1" by (simp add: exponent_def Let_def)
    from c low p0 show ?thesis unfolding e by simp
  qed
qed

lemma round_half_even_close: "\<bar>of_int (round_half_even x) - x\<bar> \<le> 1 / 2"
  unfolding round_half_even_def Let_def by (auto; linarith)


text \<open>A finite rounding result is within half the spacing of doubles at the exact value.\<close>

lemma round_binary64_accuracy:
  assumes "round_binary64 q = Finite v"
  shows "\<bar>v - q\<bar> \<le> pow2 (max (exponent \<bar>q\<bar> - 52) (- 1074)) / 2"
proof (cases "q = 0")
  case True
  with assms have "v = 0" by (simp add: round_binary64_def)
  with True show ?thesis using pow2_pos [of "max (exponent \<bar>q\<bar> - 52) (- 1074)"] by simp
next
  case False
  define p where "p = max (exponent \<bar>q\<bar> - 52) (- 1074)"
  define m where "m = round_half_even (\<bar>q\<bar> / pow2 p)"
  have pp: "0 < pow2 p" by (rule pow2_pos)
  from assms False have v: "v = (if q < 0 then - (of_int m * pow2 p) else of_int m * pow2 p)"
    unfolding round_binary64_def Let_def p_def [symmetric] m_def [symmetric]
    by (cases "q < 0") (auto split: if_splits)
  then have "\<bar>v - q\<bar> = \<bar>of_int m * pow2 p - \<bar>q\<bar>\<bar>" by (auto simp: abs_if)
  also have "\<dots> = \<bar>of_int m - \<bar>q\<bar> / pow2 p\<bar> * pow2 p"
  proof -
    have "of_int m * pow2 p - \<bar>q\<bar> = (of_int m - \<bar>q\<bar> / pow2 p) * pow2 p"
      using pp by (simp add: field_simps)
    then show ?thesis using pp by (simp add: abs_mult)
  qed
  also have "\<dots> \<le> (1 / 2) * pow2 p"
    using round_half_even_close [of "\<bar>q\<bar> / pow2 p"] pp
    unfolding m_def by (intro mult_right_mono) simp_all
  finally show ?thesis unfolding p_def by simp
qed

lemma pow2_powi: "pow2 k = 2 powi k"
  by (simp add: pow2_def power_int_def field_simps)

lemma pow2_mono: "k \<le> l \<Longrightarrow> pow2 k \<le> pow2 l"
  unfolding pow2_powi by (rule power_int_increasing) simp_all

text \<open>The exponent is the only \<open>e\<close> with \<open>2^e \<le> a < 2^(e+1)\<close>.\<close>

lemma exponent_eq:
  assumes "0 < a" and "pow2 e \<le> a" and "a < pow2 (e + 1)"
  shows "exponent a = e"
proof (rule ccontr)
  assume ne: "exponent a \<noteq> e"
  from exponent_bounds [OF assms(1)]
  have lo: "pow2 (exponent a) \<le> a" and hi: "a < pow2 (exponent a + 1)" by simp_all
  show False
  proof (cases "exponent a < e")
    case True
    then have "pow2 (exponent a + 1) \<le> pow2 e" by (intro pow2_mono) simp
    with hi assms(2) show False by linarith
  next
    case False
    with ne have "e + 1 \<le> exponent a" by simp
    then have "pow2 (e + 1) \<le> pow2 (exponent a)" by (rule pow2_mono)
    with lo assms(3) show False by linarith
  qed
qed

lemma round_half_even_nonneg: "0 \<le> x \<Longrightarrow> 0 \<le> round_half_even x"
  unfolding round_half_even_def Let_def by (auto; linarith)

lemma pow2_add: "pow2 (k + l) = pow2 k * pow2 l"
  unfolding pow2_powi by (simp add: power_int_add)

lemma exponent_less:
  assumes "0 < a" and "a < pow2 k"
  shows "exponent a < k"
proof (rule ccontr)
  assume "\<not> exponent a < k"
  then have "pow2 k \<le> pow2 (exponent a)" by (intro pow2_mono) simp
  with exponent_bounds [OF assms(1)] assms(2) show False by linarith
qed

text \<open>Half the spacing of doubles at \<open>a\<close> is at most \<open>a / 2^53\<close>, or \<open>2^-1075\<close> for a subnormal.\<close>

lemma half_spacing:
  assumes "0 < a"
  shows "pow2 (max (exponent a - 52) (- 1074)) / 2 \<le> a / 2 ^ 53 + 1 / 2 ^ 1075"
proof (cases "exponent a - 52 \<le> - 1074")
  case True
  then have "max (exponent a - 52) (- 1074) = - 1074" by simp
  moreover have "pow2 (- 1074) / 2 = 1 / 2 ^ 1075" by (simp add: pow2_def)
  ultimately show ?thesis using assms by simp
next
  case False
  then have m: "max (exponent a - 52) (- 1074) = exponent a + (- 52)" by simp
  have "pow2 (exponent a + (- 52)) = pow2 (exponent a) * pow2 (- 52)" by (rule pow2_add)
  also have "\<dots> \<le> a * pow2 (- 52)"
    using exponent_bounds [OF assms] pow2_pos [of "- 52"] by (intro mult_right_mono) simp_all
  finally have "pow2 (exponent a + (- 52)) / 2 \<le> a * pow2 (- 52) / 2" by simp
  also have "\<dots> = a / 2 ^ 53" by (simp add: pow2_def)
  finally show ?thesis unfolding m by simp
qed

text \<open>A positive value below \<open>2^1023\<close> rounds to a finite, non-negative double close to it.\<close>

lemma round_binary64_positive:
  assumes "0 < a" and "a < 2 ^ 1023"
  shows "\<exists>v. round_binary64 a = Finite v \<and> 0 \<le> v \<and> \<bar>v - a\<bar> \<le> a / 2 ^ 53 + 1 / 2 ^ 1075"
proof -
  define p where "p = max (exponent a - 52) (- 1074)"
  define m where "m = round_half_even (a / pow2 p)"
  have pp: "0 < pow2 p" by (rule pow2_pos)
  have "a < pow2 1023" using assms(2) by (simp add: pow2_def)
  with assms(1) have "exponent a < 1023" by (rule exponent_less)
  then have "p \<le> 970" by (simp add: p_def)
  then have p970: "pow2 p \<le> pow2 970" by (rule pow2_mono)
  have m0: "0 \<le> m" unfolding m_def using assms(1) pp by (intro round_half_even_nonneg) simp
  have "\<bar>of_int m - a / pow2 p\<bar> \<le> 1 / 2" unfolding m_def by (rule round_half_even_close)
  then have "\<bar>of_int m - a / pow2 p\<bar> * pow2 p \<le> (1 / 2) * pow2 p"
    using pp by (intro mult_right_mono) simp_all
  moreover have "\<bar>of_int m - a / pow2 p\<bar> * pow2 p = \<bar>of_int m * pow2 p - a\<bar>"
  proof -
    have "of_int m * pow2 p - a = (of_int m - a / pow2 p) * pow2 p"
      using pp by (simp add: field_simps)
    then show ?thesis using pp by (simp add: abs_mult)
  qed
  ultimately have close: "\<bar>of_int m * pow2 p - a\<bar> \<le> pow2 p / 2" by simp
  have "of_int m * pow2 p \<le> a + pow2 p / 2" using close by linarith
  also have "\<dots> < 2 ^ 1023 + pow2 970 / 2" using assms(2) p970 by linarith
  also have "\<dots> \<le> pow2 1024" by (simp add: pow2_def)
  finally have no_overflow: "\<not> pow2 1024 \<le> of_int m * pow2 p" by simp
  have v0: "0 \<le> of_int m * pow2 p" using m0 pp by simp
  have r: "round_binary64 a = Finite (of_int m * pow2 p)"
    using assms(1) no_overflow
    unfolding round_binary64_def Let_def
    by (simp add: p_def [symmetric] m_def [symmetric])
  from close half_spacing [OF assms(1)]
  have "\<bar>of_int m * pow2 p - a\<bar> \<le> a / 2 ^ 53 + 1 / 2 ^ 1075" unfolding p_def by linarith
  with r v0 show ?thesis by blast
qed

text \<open>
  Rounding to 2 decimal places in double arithmetic stays within half a hundredth of
  the value, up to the rounding error of the product and of the quotient.
\<close>

lemma two_decimals_close:
  assumes "0 \<le> q" and "q \<le> 2 ^ 20"
  shows "\<exists>r. two_decimals (Finite q) = Finite r \<and> \<bar>r - q\<bar> \<le> 1 / 200 + 1 / 2 ^ 30"
proof (cases "q = 0")
  case True
  then have "two_decimals (Finite q) = Finite 0"
    by (simp add: two_decimals_def js_mul_def js_div_def)
  with True show ?thesis by simp
next
  case False
  with assms(1) have q: "0 < q" by simp
  have a: "0 < q * 100" using q by simp
  have "q * 100 \<le> 2 ^ 20 * 100" using assms(2) by simp
  also have "\<dots> < (2::real) ^ 1023" by simp
  finally have a': "q * 100 < 2 ^ 1023" .
  from round_binary64_positive [OF a a'] obtain t where
    t: "round_binary64 (q * 100) = Finite t" and t0: "0 \<le> t"
    and tc: "\<bar>t - q * 100\<bar> \<le> q * 100 / 2 ^ 53 + 1 / 2 ^ 1075" by blast
  have mul: "js_mul (Finite q) (Finite 100) = Finite t"
    using q t by (simp add: js_mul_def)
  define k where "k = \<lfloor>t + 1 / 2\<rfloor>"
  have rnd: "Math_round (Finite t) = Finite (of_int k)"
    using t0 by (simp add: k_def)
  have k0: "0 \<le> k" using t0 by (simp add: k_def)
  have kt: "\<bar>of_int k - t\<bar> \<le> 1 / 2" unfolding k_def by linarith
  have tb: "\<bar>t - q * 100\<bar> \<le> 1 / 2 ^ 26"
  proof -
    have "q * 100 / 2 ^ 53 \<le> 2 ^ 20 * 100 / 2 ^ 53" using assms(2) by simp
    also have "\<dots> + 1 / 2 ^ 1075 \<le> (1::real) / 2 ^ 26" by simp
    finally show ?thesis using tc by linarith
  qed
  show ?thesis
  proof (cases "k = 0")
    case True
    with mul rnd have z: "two_decimals (Finite q) = Finite 0"
      by (simp add: two_decimals_def js_div_def)
    from True kt have "t \<le> 1 / 2" by simp
    moreover from tb have "q * 100 \<le> t + 1 / 2 ^ 26" by linarith
    ultimately have "q * 100 \<le> 1 / 2 + 1 / 2 ^ 26" by linarith
    then have "q \<le> 1 / 200 + 1 / 2 ^ 30" by simp
    with q have "\<bar>0 - q\<bar> \<le> 1 / 200 + 1 / 2 ^ 30" by simp
    with z show ?thesis by blast
  next
    case False
    with k0 have kpos: "0 < real_of_int k / 100" by simp
    have kb: "real_of_int k \<le> 2 ^ 28"
    proof -
      have "real_of_int k \<le> t + 1 / 2" using kt by linarith
      also have "\<dots> \<le> q * 100 + 1 / 2 ^ 26 + 1 / 2" using tb by linarith
      also have "\<dots> \<le> 2 ^ 20 * 100 + 1 / 2 ^ 26 + 1 / 2" using assms(2) by simp
      also have "\<dots> \<le> (2::real) ^ 28" by simp
      finally show ?thesis .
    qed
    then have "real_of_int k / 100 \<le> 2 ^ 28 / 100" by simp
    also have "\<dots> < (2::real) ^ 1023" by simp
    finally have kl: "real_of_int k / 100 < 2 ^ 1023" .
    from round_binary64_positive [OF kpos kl] obtain r where
      r: "round_binary64 (real_of_int k / 100) = Finite r"
      and rc: "\<bar>r - real_of_int k / 100\<bar> \<le> real_of_int k / 100 / 2 ^ 53 + 1 / 2 ^ 1075"
      by blast
    have dv: "js_div (Finite (of_int k)) (Finite 100) = Finite r"
      using False r by (simp add: js_div_def)
    have rb: "\<bar>r - real_of_int k / 100\<bar> \<le> 1 / 2 ^ 31"
    proof -
      have "real_of_int k / 100 / 2 ^ 53 \<le> 2 ^ 28 / 100 / 2 ^ 53" using kb by simp
      also have "\<dots> + 1 / 2 ^ 1075 \<le> (1::real) / 2 ^ 31" by simp
      finally show ?thesis using rc by linarith
    qed
    have "two_decimals (Finite q) = Finite r"
      by (simp only: two_decimals_def mul rnd dv)
    moreover have "\<bar>r - q\<bar> \<le> 1 / 200 + 1 / 2 ^ 30"
    proof -
      from tb [unfolded abs_le_iff] have t1: "t - q * 100 \<le> 1 / 2 ^ 26" and t2: "q * 100 - t \<le> 1 / 2 ^ 26"
        by simp_all
      from kt [unfolded abs_le_iff] have k1: "real_of_int k - t \<le> 1 / 2" and k2: "t - real_of_int k \<le> 1 / 2"
        by simp_all
      from rb [unfolded abs_le_iff] have r1: "r - real_of_int k / 100 \<le> 1 / 2 ^ 31"
        and r2: "real_of_int k / 100 - r \<le> 1 / 2 ^ 31"
        by simp_all
      have u: "r - q \<le> 1 / 200 + 1 / 2 ^ 30" using t1 k1 r1 by simp
      have l: "- (r - q) \<le> 1 / 200 + 1 / 2 ^ 30" using t2 k2 r2 by simp
      from u l show ?thesis unfolding abs_le_iff by (rule conjI)
    qed
    ultimately show ?thesis by blast
  qed
qed

text \<open>
  At the edges of the range: the value halfway between the largest double and \<open>2^1024\<close>
  rounds to infinity, half the smallest subnormal rounds to zero.
\<close>

lemma round_binary64_overflow:
  "round_binary64 (2 ^ 1024 - 2 ^ 970) = PosInfinity"
proof -
  have a: "\<bar>(2::real) ^ 1024 - 2 ^ 970\<bar> = 2 ^ 1024 - 2 ^ 970" by simp
  have e: "exponent (2 ^ 1024 - 2 ^ 970) = 1023"
    by (rule exponent_eq) (simp_all add: pow2_def)
  show ?thesis
    unfolding round_binary64_def Let_def a e
    by (simp add: pow2_def round_half_even_def)
qed

lemma round_binary64_underflow:
  "round_binary64 (1 / 2 ^ 1075) = Finite 0"
proof -
  have a: "\<bar>(1::real) / 2 ^ 1075\<bar> = 1 / 2 ^ 1075" by simp
  have e: "exponent (1 / 2 ^ 1075) = - 1075"
    by (rule exponent_eq) (simp_all add: pow2_def)
  show ?thesis
    unfolding round_binary64_def Let_def a e
    by (simp add: pow2_def round_half_even_def)
qed

lemma round_binary64_tenth:
  "round_binary64 (1 / 10) = Finite (3602879701896397 / 36028797018963968)"
proof -
  have e: "exponent (1 / 10) = - 4"
    by (rule exponent_eq) (simp_all add: pow2_def)
  show ?thesis
    by (simp add: round_binary64_def e pow2_def round_half_even_def)
qed

text \<open>A division by zero gives an infinity, or \<open>NaN\<close> when the dividend is zero too.\<close>

lemma js_div_by_zero:
  "js_div (Finite 1) (Finite 0) = PosInfinity"
  "js_div (Finite 0) (Finite 0) = NaN"
  "two_decimals (js_mul PosInfinity (Finite 100)) = PosInfinity"
  "two_decimals (js_mul NaN (Finite 100)) = NaN"
  by (simp_all add: two_decimals_def js_div_def js_mul_def)

section \<open>The doubles of the scenarios\<close>

text \<open>
  The roundings that occur in the scenarios, each with the binary exponent of the exact
  value.
\<close>

lemma binary64_1_over_2: "round_binary64 (1 / 2) = Finite (1 / 2)"
proof -
  have e: "exponent (1 / 2) = - 1"
    by (simp add: exponent_def pow2_def log2_floor_numeral)
  show ?thesis
    by (simp add: round_binary64_def e pow2_def round_half_even_def)
qed

lemma binary64_50: "round_binary64 (50) = Finite (50)"
proof -
  have e: "exponent (50) = 5"
    by (simp add: exponent_def pow2_def log2_floor_numeral)
  show ?thesis
    by (simp add: round_binary64_def e pow2_def round_half_even_def)
qed

lemma binary64_5000: "round_binary64 (5000) = Finite (5000)"
proof -
  have e: "exponent (5000) = 12"
    by (simp add: exponent_def pow2_def log2_floor_numeral)
  show ?thesis
    by (simp add: round_binary64_def e pow2_def round_half_even_def)
qed

lemma binary64_3_over_2: "round_binary64 (3 / 2) = Finite (3 / 2)"
proof -
  have e: "exponent (3 / 2) = 0"
    by (simp add: exponent_def pow2_def log2_floor_numeral)
  show ?thesis
    by (simp add: round_binary64_def e pow2_def round_half_even_def)
qed

lemma binary64_150: "round_binary64 (150) = Finite (150)"
proof -
  have e: "exponent (150) = 7"
    by (simp add: exponent_def pow2_def log2_floor_numeral)
  show ?thesis
    by (simp add: round_binary64_def e pow2_def round_half_even_def)
qed

lemma binary64_1_over_4: "round_binary64 (1 / 4) = Finite (1 / 4)"
proof -
  have e: "exponent (1 / 4) = - 2"
    by (simp add: exponent_def pow2_def log2_floor_numeral)
  show ?thesis
    by (simp add: round_binary64_def e pow2_def round_half_even_def)
qed

lemma binary64_25: "round_binary64 (25) = Finite (25)"
proof -
  have e: "exponent (25) = 4"
    by (simp add: exponent_def pow2_def log2_floor_numeral)
  show ?thesis
    by (simp add: round_binary64_def e pow2_def round_half_even_def)
qed

lemma binary64_2500: "round_binary64 (2500) = Finite (2500)"
proof -
  have e: "exponent (2500) = 11"
    by (simp add: exponent_def pow2_def log2_floor_numeral)
  show ?thesis
    by (simp add: round_binary64_def e pow2_def round_half_even_def)
qed

lemma binary64_1048576: "round_binary64 (1048576) = Finite (1048576)"
proof -
  have e: "exponent (1048576) = 20"
    by (simp add: exponent_def pow2_def log2_floor_numeral)
  show ?thesis
    by (simp add: round_binary64_def e pow2_def round_half_even_def)
qed

lemma binary64_1: "round_binary64 (1) = Finite (1)"
proof -
  have e: "exponent (1) = 0"
    by (simp add: exponent_def pow2_def log2_floor_numeral)
  show ?thesis
    by (simp add: round_binary64_def e pow2_def round_half_even_def)
qed

lemma binary64_100: "round_binary64 (100) = Finite (100)"
proof -
  have e: "exponent (100) = 6"
    by (simp add: exponent_def pow2_def log2_floor_numeral)
  show ?thesis
    by (simp add: round_binary64_def e pow2_def round_half_even_def)
qed

lemma binary64_23_over_160: "round_binary64 (23 / 160) = Finite (2589569785738035 / 18014398509481984)"
proof -
  have e: "exponent (23 / 160) = - 3"
    by (simp add: exponent_def pow2_def log2_floor_numeral)
  show ?thesis
    by (simp add: round_binary64_def e pow2_def round_half_even_def)
qed

lemma busy_memory_percent: "round_binary64 (64739244643450875 / 4503599627370496) = Finite (8092405580431359 / 562949953421312)"
proof -
  have e: "exponent (64739244643450875 / 4503599627370496) = 3"
    by (simp add: exponent_def pow2_def log2_floor_numeral)
  show ?thesis
    by (simp add: round_binary64_def e pow2_def round_half_even_def)
qed

lemma busy_memory_hundredths: "round_binary64 (202310139510783975 / 140737488355328) = Finite (6322191859711999 / 4398046511104)"
proof -
  have e: "exponent (202310139510783975 / 140737488355328) = 10"
    by (simp add: exponent_def pow2_def log2_floor_numeral)
  show ?thesis
    by (simp add: round_binary64_def e pow2_def round_half_even_def)
qed

lemma binary64_23_over_40: "round_binary64 (23 / 40) = Finite (2589569785738035 / 4503599627370496)"
proof -
  have e: "exponent (23 / 40) = - 1"
    by (simp add: exponent_def pow2_def log2_floor_numeral)
  show ?thesis
    by (simp add: round_binary64_def e pow2_def round_half_even_def)
qed

lemma busy_uptime_hundredths: "round_binary64 (64739244643450875 / 1125899906842624) = Finite (8092405580431359 / 140737488355328)"
proof -
  have e: "exponent (64739244643450875 / 1125899906842624) = 5"
    by (simp add: exponent_def pow2_def log2_floor_numeral)
  show ?thesis
    by (simp add: round_binary64_def e pow2_def round_half_even_def)
qed

lemma binary64_1_over_20: "round_binary64 (1 / 20) = Finite (3602879701896397 / 72057594037927936)"
proof -
  have e: "exponent (1 / 20) = - 5"
    by (simp add: exponent_def pow2_def log2_floor_numeral)
  show ?thesis
    by (simp add: round_binary64_def e pow2_def round_half_even_def)
qed

lemma busy_cpu_five_percent: "round_binary64 (90071992547409925 / 18014398509481984) = Finite (5)"
proof -
  have e: "exponent (90071992547409925 / 18014398509481984) = 2"
    by (simp add: exponent_def pow2_def log2_floor_numeral)
  show ?thesis
    by (simp add: round_binary64_def e pow2_def round_half_even_def)
qed

lemma binary64_500: "round_binary64 (500) = Finite (500)"
proof -
  have e: "exponent (500) = 8"
    by (simp add: exponent_def pow2_def log2_floor_numeral)
  show ?thesis
    by (simp add: round_binary64_def e pow2_def round_half_even_def)
qed

lemma binary64_5: "round_binary64 (5) = Finite (5)"
proof -
  have e: "exponent (5) = 2"
    by (simp add: exponent_def pow2_def log2_floor_numeral)
  show ?thesis
    by (simp add: round_binary64_def e pow2_def round_half_even_def)
qed

lemma binary64_1437_over_100: "round_binary64 (1437 / 100) = Finite (8089590830664253 / 562949953421312)"
proof -
  have e: "exponent (1437 / 100) = 3"
    by (simp add: exponent_def pow2_def log2_floor_numeral)
  show ?thesis
    by (simp add: round_binary64_def e pow2_def round_half_even_def)
qed

lemma binary64_719_over_50: "round_binary64 (719 / 50) = Finite (8095220330198467 / 562949953421312)"
proof -
  have e: "exponent (719 / 50) = 3"
    by (simp add: exponent_def pow2_def log2_floor_numeral)
  show ?thesis
    by (simp add: round_binary64_def e pow2_def round_half_even_def)
qed

lemmas scenario_doubles = binary64_1_over_2 binary64_50 binary64_5000 binary64_3_over_2 binary64_150 binary64_1_over_4 binary64_25 binary64_2500 binary64_1048576 binary64_1 binary64_100 binary64_23_over_160 busy_memory_percent busy_memory_hundredths binary64_23_over_40 busy_uptime_hundredths binary64_1_over_20 busy_cpu_five_percent binary64_500 binary64_5 binary64_1437_over_100 binary64_719_over_50

section \<open>Host metrics collector\<close>

lemma healthCheckServer_fields:
  assumes "healthCheckServer w = Fulfilled r"
  shows "process_memory_used_percent r
           = js_div (Math_round (js_mul
               (js_mul (js_div (process_heapTotal w) (os_totalmem w)) (Finite 100)) (Finite 100)))
               (Finite 100)"
    and "uptime_minutes r
           = js_div (Math_round (js_mul (js_div (process_uptime w) (Finite 60)) (Finite 100)))
               (Finite 100)"
    and "cpu_one_minute_average_percent r = getCpuPercent w (fst (os_loadavg w))"
    and "cpu_five_minute_average_percent r = getCpuPercent w (fst (snd (os_loadavg w)))"
    and "hostname r = os_hostname w"
    and "os_free_memory_mb r
           = js_div (Math_round (js_mul
               (js_div (os_freemem w) (js_mul (Finite 1024) (Finite 1024))) (Finite 100)))
               (Finite 100)"
  using assms
  by (cases "diskspace_check w"; auto simp: healthCheckServer_def Let_def)+

lemma getCpuPercent_two_decimals:
  "getCpuPercent w load
     = two_decimals (js_mul (js_div load (Finite (real (os_cpus w)))) (Finite 100))"
  by (simp add: getCpuPercent_def two_decimals_def Let_def)

text \<open>The collector on the healthy host, on the host without disk, and on the busy host.\<close>

lemma healthCheckServer_healthy_world:
  "healthCheckServer healthy_world = Fulfilled (healthy_metrics (Finite 25))"
  by (simp add: healthCheckServer_def getCpuPercent_def healthy_world_def healthy_metrics_def
      Let_def js_div_def js_mul_def scenario_doubles)

lemma healthCheckServer_diskless_world:
  "healthCheckServer diskless_world = Fulfilled (healthy_metrics (Finite (- 1)))"
  by (simp add: healthCheckServer_def getCpuPercent_def diskless_world_def healthy_world_def
      healthy_metrics_def Let_def js_div_def js_mul_def scenario_doubles)

lemma busy_world_values:
  "two_decimals (js_mul (js_div (process_heapTotal busy_world) (os_totalmem busy_world)) (Finite 100))
     = round_binary64 (1437 / 100)"
  "two_decimals (js_div (process_uptime busy_world) (Finite 60)) = round_binary64 (57 / 100)"
  "two_decimals (js_mul (js_div (fst (os_loadavg busy_world)) (Finite (real (os_cpus busy_world))))
       (Finite 100))
     = round_binary64 (1437 / 100)"
  "two_decimals (js_mul (js_div (fst (snd (os_loadavg busy_world)))
       (Finite (real (os_cpus busy_world)))) (Finite 100))
     = Finite 5"
  by (simp_all add: busy_world_def healthy_world_def two_decimals_def js_div_def js_mul_def
      binary64_23_over_160 busy_memory_percent busy_memory_hundredths binary64_23_over_40
      busy_uptime_hundredths binary64_1_over_20 busy_cpu_five_percent binary64_500 binary64_5)

text \<open>
  C9: for every snapshot of host values, the record the collector resolves to has
  \<open>process_memory_used_percent\<close> = (process heap total / total system memory) * 100,
  \<open>uptime_minutes\<close> = process uptime seconds / 60, and the two CPU fields = (load
  average / number of CPUs) * 100 for the 1-minute and the 5-minute load average, each
  rounded to 2 decimal places by \<open>Math.round(v * 100) / 100\<close> in the arithmetic of
  doubles. The memory figure is taken from \<open>heapTotal\<close>, not from \<open>heapUsed\<close>, and
  every quotient and product is rounded to a double, so a value within rounding error
  of a half hundredth can land on the neighbouring hundredth.
\<close>

theorem host_metrics_formulas:
  assumes "healthCheckServer w = Fulfilled r"
  shows "process_memory_used_percent r
           = two_decimals (js_mul (js_div (process_heapTotal w) (os_totalmem w)) (Finite 100))
       \<and> uptime_minutes r = two_decimals (js_div (process_uptime w) (Finite 60))
       \<and> cpu_one_minute_average_percent r
           = two_decimals (js_mul (js_div (fst (os_loadavg w)) (Finite (real (os_cpus w))))
               (Finite 100))
       \<and> cpu_five_minute_average_percent r
           = two_decimals (js_mul (js_div (fst (snd (os_loadavg w))) (Finite (real (os_cpus w))))
               (Finite 100))"
  unfolding healthCheckServer_fields [OF assms] getCpuPercent_two_decimals two_decimals_def
  by (intro conjI refl)

theorem host_metrics_formulas_witness:
  "\<exists>r. healthCheckServer busy_world = Fulfilled r
     \<and> process_memory_used_percent r = round_binary64 (1437 / 100)
     \<and> uptime_minutes r = round_binary64 (57 / 100)
     \<and> cpu_one_minute_average_percent r = round_binary64 (1437 / 100)
     \<and> cpu_five_minute_average_percent r = Finite 5"
proof -
  have "diskspace_check busy_world \<noteq> Pending"
    by (simp add: busy_world_def healthy_world_def)
  then obtain r where r: "healthCheckServer busy_world = Fulfilled r"
    using healthCheckServer_settles by blast
  from host_metrics_formulas [OF r] r show ?thesis
    by (simp only: busy_world_values) blast
qed

text \<open>
  As written, the claim fails in two ways. On the healthy host (4 bytes of memory, a
  heap of 2 bytes, 1 byte of it in use) the collector reports 50 percent, and the heap
  in use is 25 percent of the memory. On the busy host (a heap of 23 bytes in 160 bytes
  of memory, exactly 14.375 percent) the collector reports 14.37, the double product
  being just below 1437.5, and 14.375 rounded to 2 decimal places is 14.38. The two
  fractions in the statement are the doubles nearest to 14.37 and to 14.38
  (\<open>binary64_1437_over_100\<close>, \<open>binary64_719_over_50\<close>).
\<close>

theorem memory_percent_counterexample:
  "map_option process_memory_used_percent (fulfilment (healthCheckServer healthy_world))
     = Some (Finite 50)
   \<and> rounded_to_2_decimals (finite_value (process_heapUsed healthy_world)
         / finite_value (os_totalmem healthy_world) * 100) = Finite 25
   \<and> map_option process_memory_used_percent (fulfilment (healthCheckServer healthy_world))
     \<noteq> Some (rounded_to_2_decimals (finite_value (process_heapUsed healthy_world)
         / finite_value (os_totalmem healthy_world) * 100))
   \<and> map_option process_memory_used_percent (fulfilment (healthCheckServer busy_world))
     = Some (Finite (8089590830664253 / 562949953421312))
   \<and> rounded_to_2_decimals (finite_value (process_heapTotal busy_world)
         / finite_value (os_totalmem busy_world) * 100) = Finite (8095220330198467 / 562949953421312)
   \<and> map_option process_memory_used_percent (fulfilment (healthCheckServer busy_world))
     \<noteq> Some (rounded_to_2_decimals (finite_value (process_heapTotal busy_world)
         / finite_value (os_totalmem busy_world) * 100))"
proof -
  have h: "map_option process_memory_used_percent (fulfilment (healthCheckServer healthy_world))
     = Some (Finite 50)"
    by (simp add: healthCheckServer_healthy_world healthy_metrics_def)
  have hc: "rounded_to_2_decimals (finite_value (process_heapUsed healthy_world)
         / finite_value (os_totalmem healthy_world) * 100) = Finite 25"
    by (simp add: rounded_to_2_decimals_def healthy_world_def round_def binary64_25)
  have "diskspace_check busy_world \<noteq> Pending"
    by (simp add: busy_world_def healthy_world_def)
  then obtain r where r: "healthCheckServer busy_world = Fulfilled r"
    using healthCheckServer_settles by blast
  from healthCheckServer_fields(1) [OF r]
  have "process_memory_used_percent r = Finite (8089590830664253 / 562949953421312)"
    by (simp add: busy_world_def healthy_world_def js_div_def js_mul_def
        binary64_23_over_160 busy_memory_percent busy_memory_hundredths binary64_1437_over_100)
  with r have b: "map_option process_memory_used_percent (fulfilment (healthCheckServer busy_world))
     = Some (Finite (8089590830664253 / 562949953421312))"
    by simp
  have bc: "rounded_to_2_decimals (finite_value (process_heapTotal busy_world)
         / finite_value (os_totalmem busy_world) * 100) = Finite (8095220330198467 / 562949953421312)"
    by (simp add: rounded_to_2_decimals_def busy_world_def healthy_world_def round_def
        binary64_719_over_50)
  have n1: "map_option process_memory_used_percent (fulfilment (healthCheckServer healthy_world))
     \<noteq> Some (rounded_to_2_decimals (finite_value (process_heapUsed healthy_world)
         / finite_value (os_totalmem healthy_world) * 100))"
    unfolding h hc by simp
  have n2: "map_option process_memory_used_percent (fulfilment (healthCheckServer busy_world))
     \<noteq> Some (rounded_to_2_decimals (finite_value (process_heapTotal busy_world)
         / finite_value (os_totalmem busy_world) * 100))"
    unfolding b bc by simp
  from h hc n1 b bc n2 show ?thesis by blast
qed

text \<open>
  C7: the collector's promise is never rejected, whatever the disk query does. When the
  disk query fails, the collector resolves to a record with \<open>disk_root_use_percent\<close> =
  -1 and with memory percent, uptime, both CPU averages, hostname and free memory set
  from the host: it is the record of a successful disk query but for the disk field.
\<close>

theorem disk_failure_gives_sentinel:
  "(\<forall>e. healthCheckServer w \<noteq> Rejected e)
   \<and> (\<forall>err. diskspace_check w = Rejected err \<longrightarrow>
        (\<exists>r. healthCheckServer w = Fulfilled r
           \<and> disk_root_use_percent r = Finite (- 1)
           \<and> process_memory_used_percent r
               = js_div (Math_round (js_mul
                   (js_mul (js_div (process_heapTotal w) (os_totalmem w)) (Finite 100))
                   (Finite 100))) (Finite 100)
           \<and> uptime_minutes r
               = js_div (Math_round (js_mul (js_div (process_uptime w) (Finite 60)) (Finite 100)))
                   (Finite 100)
           \<and> cpu_one_minute_average_percent r = getCpuPercent w (fst (os_loadavg w))
           \<and> cpu_five_minute_average_percent r = getCpuPercent w (fst (snd (os_loadavg w)))
           \<and> hostname r = os_hostname w
           \<and> os_free_memory_mb r
               = js_div (Math_round (js_mul
                   (js_div (os_freemem w) (js_mul (Finite 1024) (Finite 1024))) (Finite 100)))
                   (Finite 100)
           \<and> (\<forall>d. healthCheckServer (w \<lparr> diskspace_check := Fulfilled d \<rparr>)
                  = Fulfilled (r \<lparr> disk_root_use_percent :=
                      js_div (Math_round (js_mul
                        (js_mul (js_div (used d) (total d)) (Finite 100)) (Finite 100)))
                        (Finite 100) \<rparr>))))"
proof (intro conjI allI impI)
  fix e show "healthCheckServer w \<noteq> Rejected e"
    by (cases "diskspace_check w") (simp_all add: healthCheckServer_def Let_def)
next
  fix err assume "diskspace_check w = Rejected err"
  then show "\<exists>r. healthCheckServer w = Fulfilled r
           \<and> disk_root_use_percent r = Finite (- 1)
           \<and> process_memory_used_percent r
               = js_div (Math_round (js_mul
                   (js_mul (js_div (process_heapTotal w) (os_totalmem w)) (Finite 100))
                   (Finite 100))) (Finite 100)
           \<and> uptime_minutes r
               = js_div (Math_round (js_mul (js_div (process_uptime w) (Finite 60)) (Finite 100)))
                   (Finite 100)
           \<and> cpu_one_minute_average_percent r = getCpuPercent w (fst (os_loadavg w))
           \<and> cpu_five_minute_average_percent r = getCpuPercent w (fst (snd (os_loadavg w)))
           \<and> hostname r = os_hostname w
           \<and> os_free_memory_mb r
               = js_div (Math_round (js_mul
                   (js_div (os_freemem w) (js_mul (Finite 1024) (Finite 1024))) (Finite 100)))
                   (Finite 100)
           \<and> (\<forall>d. healthCheckServer (w \<lparr> diskspace_check := Fulfilled d \<rparr>)
                  = Fulfilled (r \<lparr> disk_root_use_percent :=
                      js_div (Math_round (js_mul
                        (js_mul (js_div (used d) (total d)) (Finite 100)) (Finite 100)))
                        (Finite 100) \<rparr>))"
    by (simp add: healthCheckServer_def getCpuPercent_def Let_def)
qed

theorem disk_failure_gives_sentinel_witness:
  "diskspace_check diskless_world = Rejected (Thrown (Error ''ENOENT''))
   \<and> healthCheckServer diskless_world = Fulfilled (healthy_metrics (Finite (- 1)))
   \<and> (\<exists>r. healthCheckServer diskless_world = Fulfilled r
          \<and> disk_root_use_percent r = Finite (- 1)
          \<and> hostname r = os_hostname diskless_world)"
proof -
  have a: "diskspace_check diskless_world = Rejected (Thrown (Error ''ENOENT''))"
    by (simp add: diskless_world_def)
  have b: "healthCheckServer diskless_world = Fulfilled (healthy_metrics (Finite (- 1)))"
    by (rule healthCheckServer_diskless_world)
  from a disk_failure_gives_sentinel [of diskless_world]
  have "\<exists>r. healthCheckServer diskless_world = Fulfilled r
          \<and> disk_root_use_percent r = Finite (- 1)
          \<and> hostname r = os_hostname diskless_world"
    by blast
  with a b show ?thesis by blast
qed

section \<open>Route registration\<close>

text \<open>
  C10: \<open>setupEndpoints\<close> registers \<open>getHealthCheck\<close> itself under the route, not a
  handler that \<open>getHealthCheck\<close> returns for an inspection set. A request dispatched to
  the route calls \<open>getHealthCheck\<close> with the request as its argument; the call returns
  a handler, which nobody calls, and sends no response.
\<close>

theorem setupEndpoints_registers_factory:
  "setupEndpoints routes routeURI routeURI = Some GetHealthCheck
   \<and> (\<forall>inspectionSet. setupEndpoints routes routeURI routeURI \<noteq> Some (getHealthCheck inspectionSet))
   \<and> call w GetHealthCheck req = (Some (getHealthCheck req), \<lparr> sent = [], captured = [], escaped = None \<rparr>)
   \<and> dispatch w (setupEndpoints routes routeURI) routeURI req = \<lparr> sent = [], captured = [], escaped = None \<rparr>"
  by (simp add: setupEndpoints_def server_get_def getHealthCheck_def dispatch_def)


end
